theory Spec2Isabelle
  imports Main "HOL-Library.Sublist"
begin

section \<open>Data model\<close>

text \<open>
  The development embeds \<^verbatim>\<open>pandera/backends/pandas/array.py\<close>: the classes
  \<^verbatim>\<open>CoreCheckResult\<close>, \<^verbatim>\<open>ArraySchemaBackend\<close> and \<^verbatim>\<open>SeriesSchemaBackend\<close>.
  Objects validated here are one-dimensional (\<^verbatim>\<open>is_field(check_obj)\<close> holds), so the
  field view \<^verbatim>\<open>check_obj if is_field(check_obj) else check_obj[schema.name]\<close> is the
  object itself and \<^verbatim>\<open>check_args\<close> is \<^verbatim>\<open>[None]\<close>.
\<close>

text \<open>A value stored in a series: a null, an integer or a string.\<close>

datatype cell = NA | IntV int | StrV string

text \<open>A row of a series: its index label and its value.\<close>

type_synonym row = "int \<times> cell"

text \<open>The setting \<^verbatim>\<open>schema.report_duplicates\<close> and the \<^verbatim>\<open>keep\<close> argument of
  pandas' \<^verbatim>\<open>duplicated\<close> (\<^verbatim>\<open>"first"\<close>, \<^verbatim>\<open>"last"\<close>, \<^verbatim>\<open>False\<close>).\<close>

datatype report_setting = ExcludeFirst | ExcludeLast | ReportAll

datatype keep = KeepFirst | KeepLast | KeepFalse

text \<open>A schema is plain data: the dtype is its descriptor's name and a declared check
  is identified by its name; what they compute belongs to the engine below.\<close>

record schema =
  name :: "string option"
  dtype :: "string option"
  nullable :: bool
  unique :: bool
  report_duplicates :: report_setting
  checks :: "string list"
  coerce :: bool

text \<open>
  A pandas object. \<open>pandera\<close> is the accessor: \<open>None\<close> when the object has no attribute
  \<^verbatim>\<open>pandera\<close>, \<open>Some None\<close> for an accessor with no schema, \<open>Some (Some s)\<close> when
  schema \<open>s\<close> is attached. \<open>s_module\<close> is \<^verbatim>\<open>type(check_obj).__module__\<close>.
\<close>

record series =
  s_name :: "string option"
  s_dtype :: string
  s_module :: string
  rows :: "row list"
  pandera :: "schema option option"

text \<open>One failure case: a location (none for a scalar case) and a value.\<close>

type_synonym failure_case = "int option \<times> cell"

text \<open>A message keeps the pieces of the f-string that builds it.\<close>

datatype piece =
    Lit string
  | TypeOf string
  | Rows "row list"
  | Cases "failure_case list"
  | Traceback

type_synonym message = "piece list"

record core_check_result =
  check :: string
  reason_code :: string
  passed :: bool
  message :: "message option"
  failure_cases :: "failure_case list option"

text \<open>
  \<^verbatim>\<open>SchemaError\<close>. A keyword the constructor call does not pass is \<open>None\<close>:
  \<open>e_reason_code\<close> is \<open>None\<close> for an error built without \<^verbatim>\<open>reason_code=\<close>.
\<close>

record schema_error =
  e_schema :: schema
  e_data :: series
  e_message :: "message option"
  e_failure_cases :: "failure_case list option"
  e_check :: "string option"
  e_check_index :: "nat option"
  e_reason_code :: "string option"

text \<open>An entry of \<^verbatim>\<open>error_handler.collected_errors\<close>: the reason code given to
  \<^verbatim>\<open>collect_error\<close> and the error.\<close>

type_synonym error_entry = "string option \<times> schema_error"

text \<open>A Python exception raised by a check: class name, \<^verbatim>\<open>args\<close> and
  \<^verbatim>\<open>__cause__\<close>.\<close>

datatype py_exception = PyException string "string list" "py_exception option"

text \<open>What a call can raise.\<close>

datatype raised =
    SchemaErrorRaised schema_error
  | SchemaErrorsRaised schema "error_entry list" series
  | AssertionError
  | AttributeError

text \<open>The result of \<^verbatim>\<open>schema.dtype.try_coerce\<close>'s failure.\<close>

record parser_error =
  p_message :: string
  p_failure_cases :: "failure_case list"

text \<open>The result of \<^verbatim>\<open>schema.dtype.check\<close>: one boolean or a per-element mask.\<close>

datatype dtype_check_results = BoolResult bool | MaskResult "bool list"

text \<open>What \<^verbatim>\<open>run_check\<close> does on one declared check: it returns a boolean, raises
  a \<^verbatim>\<open>SchemaError\<close>, or raises another exception.\<close>

datatype check_outcome =
    Returned bool
  | RaisedSchemaError schema_error
  | RaisedException py_exception

text \<open>
  The collaborators of the backend that live outside \<^verbatim>\<open>array.py\<close>, taken as
  parameters:
  \<^item> \<open>try_coerce d obj\<close> is \<^verbatim>\<open>schema.dtype.try_coerce(check_obj)\<close> for the dtype
    \<open>d\<close>: the first component is the coerced object or the \<^verbatim>\<open>ParserError\<close>, the
    second is the state in which the call leaves the object it was handed (the
    argument itself when the engine does not write to it);
  \<^item> \<open>engine_dtype\<close> is \<^verbatim>\<open>Engine.dtype\<close>;
  \<^item> \<open>dtype_check d actual obj\<close> is \<^verbatim>\<open>schema.dtype.check(actual, check_obj)\<close>;
  \<^item> \<open>select_rows\<close> picks the rows of a subsample when one is asked for;
  \<^item> \<open>run_check obj schema check check_index\<close> is the base class's
    \<^verbatim>\<open>run_check\<close>.
\<close>

record engine =
  try_coerce :: "string \<Rightarrow> series \<Rightarrow> (parser_error + series) \<times> series"
  engine_dtype :: "string \<Rightarrow> string"
  dtype_check :: "string \<Rightarrow> string \<Rightarrow> series \<Rightarrow> dtype_check_results"
  select_rows ::
    "row list \<Rightarrow> int option \<Rightarrow> int option \<Rightarrow> int option \<Rightarrow> int option \<Rightarrow> row list"
  run_check :: "series \<Rightarrow> schema \<Rightarrow> string \<Rightarrow> nat \<Rightarrow> check_outcome"

text \<open>The store: objects live at addresses, a reference is an address.\<close>

type_synonym ref = nat

type_synonym heap = "series list"

text \<open>The calls made during one validation, in execution order.\<close>

datatype event =
    Preprocess
  | Coerce
  | Subsample
  | CoreCheck string
  | DeclaredCheck nat

datatype backend = ArraySchemaBackend | SeriesSchemaBackend

section \<open>Helpers outside the module\<close>

text \<open>A string between single quotes, as the f-strings write it.\<close>

definition quoted :: "string \<Rightarrow> string" where
  "quoted s = [CHR 0x27] @ s @ [CHR 0x27]"

text \<open>\<^verbatim>\<open>str\<close> of an optional string: \<^verbatim>\<open>None\<close> prints as \<^verbatim>\<open>None\<close>.\<close>

definition str_opt :: "string option \<Rightarrow> string" where
  "str_opt x = (case x of None \<Rightarrow> ''None'' | Some s \<Rightarrow> s)"

definition cell_of_name :: "string option \<Rightarrow> cell" where
  "cell_of_name x = (case x of None \<Rightarrow> NA | Some s \<Rightarrow> StrV s)"

text \<open>Modelled from the spec: \<^verbatim>\<open>scalar_failure_case\<close> of
  \<^verbatim>\<open>pandera/backends/pandas/error_formatters.py\<close>, which is not among the sources.
  A scalar violation yields one synthetic failure case, with no location.\<close>

definition scalar_failure_case :: "cell \<Rightarrow> failure_case list" where
  "scalar_failure_case x = [(None, x)]"

text \<open>Modelled from the spec: \<^verbatim>\<open>reshape_failure_cases\<close> of
  \<^verbatim>\<open>pandera/backends/pandas/error_formatters.py\<close>, which is not among the sources.
  Each row becomes one failure case, a (location, value) pair; \<open>ignore_na\<close> leaves the
  null-valued rows out.\<close>

definition reshape_failure_cases :: "row list \<Rightarrow> bool \<Rightarrow> failure_case list" where
  "reshape_failure_cases rs ignore_na =
     map (\<lambda>(i, v). (Some i, v)) (if ignore_na then filter (\<lambda>(i, v). v \<noteq> NA) rs else rs)"

text \<open>Modelled from the spec: \<^verbatim>\<open>convert_uniquesettings\<close> of
  \<^verbatim>\<open>pandera/backends/pandas/utils.py\<close>, which is not among the sources. The policy
  names the occurrence that is kept (not reported): the first, the last, or none.\<close>

definition convert_uniquesettings :: "report_setting \<Rightarrow> keep" where
  "convert_uniquesettings u =
     (case u of ExcludeFirst \<Rightarrow> KeepFirst | ExcludeLast \<Rightarrow> KeepLast | ReportAll \<Rightarrow> KeepFalse)"

text \<open>pandas' \<^verbatim>\<open>Series.duplicated(keep=...)\<close>: the mask of the rows whose value
  occurs again, all but the kept occurrence. Nulls equal each other.\<close>

definition duplicated :: "keep \<Rightarrow> cell list \<Rightarrow> bool list" where
  "duplicated k vs =
     map (\<lambda>i. case k of
            KeepFirst \<Rightarrow> vs ! i \<in> set (take i vs)
          | KeepLast \<Rightarrow> vs ! i \<in> set (drop (Suc i) vs)
          | KeepFalse \<Rightarrow> vs ! i \<in> set (take i vs) \<or> vs ! i \<in> set (drop (Suc i) vs))
       [0..<length vs]"

text \<open>The pyspark.pandas route of \<^verbatim>\<open>check_unique\<close>:
  \<^verbatim>\<open>check_obj.to_frame().duplicated(keep=...).reindex(check_obj.index)\<close>, the duplicated
  rows of the one-column frame, put back on the index of the series.\<close>

definition to_frame_duplicated :: "keep \<Rightarrow> row list \<Rightarrow> bool list" where
  "to_frame_duplicated k rs = duplicated k (map snd rs)"

text \<open>\<^verbatim>\<open>mask.any()\<close>, \<^verbatim>\<open>mask.all()\<close> and boolean indexing \<^verbatim>\<open>check_obj[mask]\<close>.\<close>

definition any_true :: "bool list \<Rightarrow> bool" where
  "any_true m = list_ex (\<lambda>b. b) m"

definition all_true :: "bool list \<Rightarrow> bool" where
  "all_true m = list_all (\<lambda>b. b) m"

definition select_mask :: "row list \<Rightarrow> bool list \<Rightarrow> row list" where
  "select_mask rs m = map fst (filter snd (zip rs m))"

definition isna :: "series \<Rightarrow> bool list" where
  "isna obj = map (\<lambda>(i, v). v = NA) (rows obj)"

text \<open>The accessor's \<^verbatim>\<open>add_schema\<close>: it stores the schema and hands the object
  back.\<close>

definition add_schema :: "series \<Rightarrow> schema option \<Rightarrow> series" where
  "add_schema obj s = obj\<lparr>pandera := Some s\<rparr>"

definition hasattr_pandera :: "series \<Rightarrow> bool" where
  "hasattr_pandera obj = (pandera obj \<noteq> None)"

section \<open>The core checks\<close>

definition check_name :: "series \<Rightarrow> schema \<Rightarrow> core_check_result" where
  "check_name check_obj schema =
     \<lparr>check = ''field_name('' @ quoted (str_opt (name schema)) @ '')'',
      reason_code = ''wrong_field_name'',
      passed = (name schema = None \<or> s_name check_obj = name schema),
      message = Some [Lit ''Expected '', TypeOf (s_module check_obj),
                      Lit '' to have name '', Lit (quoted (str_opt (name schema))),
                      Lit '', found '', Lit (quoted (str_opt (s_name check_obj)))],
      failure_cases = Some (scalar_failure_case (cell_of_name (s_name check_obj)))\<rparr>"

definition check_nullable :: "series \<Rightarrow> schema \<Rightarrow> core_check_result" where
  "check_nullable check_obj schema =
     (let isna = isna check_obj;
          passed = (nullable schema \<or> \<not> any_true isna)
      in \<lparr>check = ''not_nullable'',
          reason_code = ''series_contains_nulls'',
          passed = passed,
          message = Some [Lit ''non-nullable series '', Lit (quoted (str_opt (s_name check_obj))),
                          Lit '' contains null values:'', Rows (select_mask (rows check_obj) isna)],
          failure_cases =
            Some (reshape_failure_cases (select_mask (rows check_obj) isna) False)\<rparr>)"

definition check_unique :: "series \<Rightarrow> schema \<Rightarrow> core_check_result" where
  "check_unique check_obj schema =
     (if unique schema then
        (let keep_argument = convert_uniquesettings (report_duplicates schema);
             duplicates =
               (if prefix ''pyspark.pandas'' (s_module check_obj)
                then to_frame_duplicated keep_argument (rows check_obj)
                else duplicated keep_argument (map snd (rows check_obj)));
             failed = select_mask (rows check_obj) duplicates
         in if any_true duplicates
            then \<lparr>check = ''field_uniqueness'',
                  reason_code = ''series_contains_duplicates'',
                  passed = False,
                  message = Some [Lit ''series '', Lit (quoted (str_opt (s_name check_obj))),
                                  Lit '' contains duplicate values:'', Rows failed],
                  failure_cases = Some (reshape_failure_cases failed True)\<rparr>
            else \<lparr>check = ''field_uniqueness'',
                  reason_code = ''series_contains_duplicates'',
                  passed = True, message = None, failure_cases = None\<rparr>)
      else \<lparr>check = ''field_uniqueness'',
            reason_code = ''series_contains_duplicates'',
            passed = True, message = None, failure_cases = None\<rparr>)"

definition check_dtype :: "engine \<Rightarrow> series \<Rightarrow> schema \<Rightarrow> core_check_result" where
  "check_dtype eng check_obj schema =
     (case dtype schema of
        None \<Rightarrow>
          \<lparr>check = ''dtype('' @ quoted ''None'' @ '')'',
           reason_code = ''wrong_dtype'',
           passed = True, message = None, failure_cases = None\<rparr>
      | Some d \<Rightarrow>
          (case dtype_check eng d (engine_dtype eng (s_dtype check_obj)) check_obj of
             BoolResult b \<Rightarrow>
               \<lparr>check = ''dtype('' @ quoted d @ '')'',
                reason_code = ''wrong_dtype'',
                passed = b,
                message = Some [Lit ''expected series '', Lit (quoted (str_opt (s_name check_obj))),
                                Lit '' to have type '', Lit d, Lit '', got '',
                                Lit (s_dtype check_obj)],
                failure_cases = Some (scalar_failure_case (StrV (s_dtype check_obj)))\<rparr>
           | MaskResult m \<Rightarrow>
               (let failure_cases =
                      reshape_failure_cases (select_mask (rows check_obj) (map Not m)) False
                in \<lparr>check = ''dtype('' @ quoted d @ '')'',
                    reason_code = ''wrong_dtype'',
                    passed = all_true m,
                    message = Some [Lit ''expected series '', Lit (quoted (str_opt (s_name check_obj))),
                                    Lit '' to have type '', Lit d, Lit '': failure cases: '',
                                    Cases failure_cases],
                    failure_cases = Some failure_cases\<rparr>)))"

section \<open>The error handler\<close>

record handler =
  lazy :: bool
  collected_errors :: "error_entry list"

text \<open>The state of one \<^verbatim>\<open>validate\<close> call: the store, the call's error handler and
  the calls made so far.\<close>

record vstate =
  heap :: heap
  error_handler :: handler
  calls :: "event list"

text \<open>Modelled from the spec: \<^verbatim>\<open>SchemaErrorHandler\<close> of
  \<^verbatim>\<open>pandera/error_handlers.py\<close>, which is not among the sources. The mode is fixed
  at construction. Eager: the first collected error is raised at once. Lazy: every
  collected error is appended, in order, to an internal list and nothing is raised.\<close>

definition SchemaErrorHandler :: "bool \<Rightarrow> handler" where
  "SchemaErrorHandler l = \<lparr>lazy = l, collected_errors = []\<rparr>"

definition collect_error :: "handler \<Rightarrow> string option \<Rightarrow> schema_error \<Rightarrow> raised + handler" where
  "collect_error h rc err =
     (if \<not> lazy h then Inl (SchemaErrorRaised err)
      else Inr (h\<lparr>collected_errors := collected_errors h @ [(rc, err)]\<rparr>))"

section \<open>The validation pipeline\<close>

text \<open>pandas' \<^verbatim>\<open>copy()\<close>: a new object with the name, dtype and rows of the original.
  pandas caches the accessor on the instance, so the accessor of the copy is a new
  one, holding no schema.\<close>

definition series_copy :: "series \<Rightarrow> series" where
  "series_copy obj = obj\<lparr>pandera := map_option (\<lambda>a. None) (pandera obj)\<rparr>"

text \<open>\<^verbatim>\<open>check_obj if inplace else check_obj.copy()\<close>: the copy lives at a new
  address.\<close>

definition preprocess :: "heap \<Rightarrow> ref \<Rightarrow> bool \<Rightarrow> heap \<times> ref" where
  "preprocess h check_obj inplace =
     (if inplace then (h, check_obj) else (h @ [series_copy (h ! check_obj)], length h))"

text \<open>Modelled from the spec: \<^verbatim>\<open>subsample\<close> of the base class
  (\<^verbatim>\<open>pandera/backends/pandas/base.py\<close>), which is not among the sources. With no
  \<open>head\<close>, \<open>tail\<close> or \<open>sample\<close> there is no subsampling; otherwise the rows are the
  engine's selection, a function of the rows and the four options only.\<close>

definition subsample ::
  "engine \<Rightarrow> series \<Rightarrow> int option \<Rightarrow> int option \<Rightarrow> int option \<Rightarrow> int option \<Rightarrow> series" where
  "subsample eng check_obj head tail sample random_state =
     (if head = None \<and> tail = None \<and> sample = None then check_obj
      else check_obj\<lparr>rows := select_rows eng (rows check_obj) head tail sample random_state\<rparr>)"

text \<open>\<^verbatim>\<open>ArraySchemaBackend.coerce_dtype\<close>. The coerced object is a new object; the
  object handed to the engine is left as the engine left it.\<close>

definition ArraySchemaBackend_coerce_dtype ::
  "engine \<Rightarrow> heap \<Rightarrow> ref \<Rightarrow> schema option \<Rightarrow> (raised + ref) \<times> heap" where
  "ArraySchemaBackend_coerce_dtype eng h check_obj schema_arg =
     (case schema_arg of
        None \<Rightarrow> (Inl AssertionError, h)
      | Some schema \<Rightarrow>
          (case dtype schema of
             None \<Rightarrow> (Inr check_obj, h)
           | Some d \<Rightarrow>
               if \<not> coerce schema then (Inr check_obj, h)
               else
                 (case try_coerce eng d (h ! check_obj) of
                    (Inr coerced, left) \<Rightarrow> (Inr (length h), h[check_obj := left] @ [coerced])
                  | (Inl exc, left) \<Rightarrow>
                      (Inl (SchemaErrorRaised
                         \<lparr>e_schema = schema,
                          e_data = left,
                          e_message =
                            Some [Lit ''Error while coercing '', Lit (quoted (str_opt (name schema))),
                                  Lit '' to type '', Lit d, Lit '': '', Lit (p_message exc),
                                  Lit '':'', Cases (p_failure_cases exc)],
                          e_failure_cases = Some (p_failure_cases exc),
                          e_check = Some (''coerce_dtype('' @ quoted d @ '')''),
                          e_check_index = None,
                          e_reason_code = None\<rparr>),
                       h[check_obj := left]))))"

text \<open>\<^verbatim>\<open>SeriesSchemaBackend.coerce_dtype\<close>.\<close>

definition SeriesSchemaBackend_coerce_dtype ::
  "engine \<Rightarrow> heap \<Rightarrow> ref \<Rightarrow> schema option \<Rightarrow> (raised + ref) \<times> heap" where
  "SeriesSchemaBackend_coerce_dtype eng h check_obj schema_arg =
     (let h1 = (if hasattr_pandera (h ! check_obj)
                then h[check_obj := add_schema (h ! check_obj) schema_arg] else h)
      in case ArraySchemaBackend_coerce_dtype eng h1 check_obj schema_arg of
           (Inl exc, h2) \<Rightarrow> (Inl exc, h2)
         | (Inr check_obj', h2) \<Rightarrow>
             (Inr check_obj',
              if hasattr_pandera (h2 ! check_obj')
              then h2[check_obj' := add_schema (h2 ! check_obj') schema_arg] else h2))"

text \<open>\<^verbatim>\<open>self.coerce_dtype\<close>: the method of the backend's class.\<close>

definition coerce_dtype ::
  "backend \<Rightarrow> engine \<Rightarrow> heap \<Rightarrow> ref \<Rightarrow> schema option \<Rightarrow> (raised + ref) \<times> heap" where
  "coerce_dtype self eng h check_obj schema_arg =
     (case self of
        ArraySchemaBackend \<Rightarrow> ArraySchemaBackend_coerce_dtype eng h check_obj schema_arg
      | SeriesSchemaBackend \<Rightarrow> SeriesSchemaBackend_coerce_dtype eng h check_obj schema_arg)"

text \<open>The tuple of core checks that \<^verbatim>\<open>validate\<close> iterates over, each with its
  method name.\<close>

definition core_checks :: "engine \<Rightarrow> (string \<times> (series \<Rightarrow> schema \<Rightarrow> core_check_result)) list" where
  "core_checks eng =
     [(''check_name'', check_name),
      (''check_nullable'', check_nullable),
      (''check_unique'', check_unique),
      (''check_dtype'', check_dtype eng)]"

text \<open>The error \<^verbatim>\<open>validate\<close> builds from a failed core check.\<close>

definition core_check_error :: "schema \<Rightarrow> series \<Rightarrow> core_check_result \<Rightarrow> schema_error" where
  "core_check_error schema check_obj check_result =
     \<lparr>e_schema = schema,
      e_data = check_obj,
      e_message = message check_result,
      e_failure_cases = failure_cases check_result,
      e_check = Some (check check_result),
      e_check_index = None,
      e_reason_code = Some (reason_code check_result)\<rparr>"

text \<open>The loop \<^verbatim>\<open>for core_check in (...)\<close> of \<^verbatim>\<open>validate\<close>. The first component
  is the exception that ended the loop, if any.\<close>

fun run_core_checks ::
  "(string \<times> (series \<Rightarrow> schema \<Rightarrow> core_check_result)) list \<Rightarrow> series \<Rightarrow> schema \<Rightarrow> series
     \<Rightarrow> vstate \<Rightarrow> raised option \<times> vstate" where
  "run_core_checks [] field_obj_subsample schema check_obj st = (None, st)"
| "run_core_checks ((n, core_check) # rest) field_obj_subsample schema check_obj st =
     (let check_result = core_check field_obj_subsample schema;
          st1 = st\<lparr>calls := calls st @ [CoreCheck n]\<rparr>
      in if \<not> passed check_result then
           (case collect_error (error_handler st1) (Some (reason_code check_result))
                   (core_check_error schema check_obj check_result) of
              Inl exc \<Rightarrow> (Some exc, st1)
            | Inr eh \<Rightarrow>
                run_core_checks rest field_obj_subsample schema check_obj
                  (st1\<lparr>error_handler := eh\<rparr>))
         else run_core_checks rest field_obj_subsample schema check_obj st1)"

text \<open>The \<^verbatim>\<open>except Exception\<close> branch of \<^verbatim>\<open>run_checks\<close>: a \<^verbatim>\<open>DispatchError\<close> is
  replaced by its \<^verbatim>\<open>__cause__\<close>; reading \<^verbatim>\<open>args\<close> of a missing cause raises
  \<^verbatim>\<open>AttributeError\<close>.\<close>

definition unwrap_dispatch :: "py_exception \<Rightarrow> py_exception option" where
  "unwrap_dispatch err =
     (case err of PyException cls args cause \<Rightarrow>
        if cls = ''DispatchError'' then cause else Some err)"

definition err_str :: "py_exception \<Rightarrow> string" where
  "err_str err =
     (case err of PyException cls args cause \<Rightarrow>
        (let err_msg = (case args of [] \<Rightarrow> [] | a # _ \<Rightarrow> [CHR 0x22] @ a @ [CHR 0x22])
         in cls @ ''('' @ err_msg @ '')''))"

definition check_error :: "schema \<Rightarrow> series \<Rightarrow> string \<Rightarrow> nat \<Rightarrow> py_exception \<Rightarrow> schema_error" where
  "check_error schema check_obj chk check_index err =
     \<lparr>e_schema = schema,
      e_data = check_obj,
      e_message = Some [Lit ''Error while executing check function: '', Lit (err_str err),
                        Traceback],
      e_failure_cases = Some (scalar_failure_case (StrV (err_str err))),
      e_check = Some chk,
      e_check_index = Some check_index,
      e_reason_code = None\<rparr>"

text \<open>The loop of \<^verbatim>\<open>run_checks\<close> from \<open>check_index\<close> on, \<open>check_results\<close> being the
  list built so far.\<close>

fun run_checks_loop ::
  "engine \<Rightarrow> series \<Rightarrow> schema \<Rightarrow> nat \<Rightarrow> string list \<Rightarrow> bool list \<Rightarrow> vstate
     \<Rightarrow> (raised + bool list) \<times> vstate" where
  "run_checks_loop eng check_obj schema check_index [] check_results st =
     (Inr check_results, st)"
| "run_checks_loop eng check_obj schema check_index (chk # rest) check_results st =
     (let st1 = st\<lparr>calls := calls st @ [DeclaredCheck check_index]\<rparr>
      in case run_check eng check_obj schema chk check_index of
           Returned b \<Rightarrow>
             run_checks_loop eng check_obj schema (Suc check_index) rest (check_results @ [b]) st1
         | RaisedSchemaError err \<Rightarrow>
             (case collect_error (error_handler st1) (Some ''dataframe_check'') err of
                Inl exc \<Rightarrow> (Inl exc, st1)
              | Inr eh \<Rightarrow>
                  run_checks_loop eng check_obj schema (Suc check_index) rest check_results
                    (st1\<lparr>error_handler := eh\<rparr>))
         | RaisedException err0 \<Rightarrow>
             (case unwrap_dispatch err0 of
                None \<Rightarrow> (Inl AttributeError, st1)
              | Some err \<Rightarrow>
                  (case collect_error (error_handler st1) (Some ''check_error'')
                          (check_error schema check_obj chk check_index err) of
                     Inl exc \<Rightarrow> (Inl exc, st1)
                   | Inr eh \<Rightarrow>
                       run_checks_loop eng check_obj schema (Suc check_index) rest check_results
                         (st1\<lparr>error_handler := eh\<rparr>))))"

definition run_checks ::
  "engine \<Rightarrow> series \<Rightarrow> schema \<Rightarrow> bool \<Rightarrow> vstate \<Rightarrow> (raised + bool list) \<times> vstate" where
  "run_checks eng check_obj schema lazy_arg st =
     run_checks_loop eng check_obj schema 0 (checks schema) [] st"

text \<open>The coercion step of \<^verbatim>\<open>validate\<close>: \<^verbatim>\<open>if schema.coerce: try ... except
  SchemaError\<close>. The result is the object validation goes on with.\<close>

definition validate_coerce ::
  "backend \<Rightarrow> engine \<Rightarrow> ref \<Rightarrow> schema \<Rightarrow> vstate \<Rightarrow> (raised + ref) \<times> vstate" where
  "validate_coerce self eng check_obj schema st =
     (if coerce schema then
        (case coerce_dtype self eng (heap st) check_obj (Some schema) of
           (Inr check_obj', h) \<Rightarrow>
             (Inr check_obj', st\<lparr>heap := h, calls := calls st @ [Coerce]\<rparr>)
         | (Inl (SchemaErrorRaised exc), h) \<Rightarrow>
             (case collect_error (error_handler st) (e_reason_code exc) exc of
                Inl r \<Rightarrow> (Inl r, st\<lparr>heap := h, calls := calls st @ [Coerce]\<rparr>)
              | Inr eh \<Rightarrow>
                  (Inr check_obj,
                   st\<lparr>heap := h, error_handler := eh, calls := calls st @ [Coerce]\<rparr>))
         | (Inl other, h) \<Rightarrow> (Inl other, st\<lparr>heap := h, calls := calls st @ [Coerce]\<rparr>))
      else (Inr check_obj, st))"

text \<open>\<^verbatim>\<open>ArraySchemaBackend.validate\<close>, inherited by \<^verbatim>\<open>SeriesSchemaBackend\<close>. The
  caller holds the reference \<open>check_obj\<close> into the store \<open>h\<close>; the result is the
  returned reference or the exception, with the final state.\<close>

definition validate ::
  "backend \<Rightarrow> engine \<Rightarrow> heap \<Rightarrow> ref \<Rightarrow> schema \<Rightarrow> int option \<Rightarrow> int option \<Rightarrow> int option
     \<Rightarrow> int option \<Rightarrow> bool \<Rightarrow> bool \<Rightarrow> (raised + ref) \<times> vstate" where
  "validate self eng h check_obj schema head tail sample random_state lazy_arg inplace =
     (let eh = SchemaErrorHandler lazy_arg;
          (h1, check_obj1) = preprocess h check_obj inplace;
          st1 = \<lparr>heap = h1, error_handler = eh, calls = [Preprocess]\<rparr>
      in case validate_coerce self eng check_obj1 schema st1 of
           (Inl exc, st2) \<Rightarrow> (Inl exc, st2)
         | (Inr check_obj2, st2) \<Rightarrow>
             (let field_obj_subsample =
                    subsample eng (heap st2 ! check_obj2) head tail sample random_state;
                  check_obj_subsample =
                    subsample eng (heap st2 ! check_obj2) head tail sample random_state;
                  st3 = st2\<lparr>calls := calls st2 @ [Subsample, Subsample]\<rparr>
              in case run_core_checks (core_checks eng) field_obj_subsample schema
                        (heap st3 ! check_obj2) st3 of
                   (Some exc, st4) \<Rightarrow> (Inl exc, st4)
                 | (None, st4) \<Rightarrow>
                     (case run_checks eng check_obj_subsample schema lazy_arg st4 of
                        (Inl exc, st5) \<Rightarrow> (Inl exc, st5)
                      | (Inr check_results, st5) \<Rightarrow>
                          if \<not> all_true check_results then (Inl AssertionError, st5)
                          else if lazy_arg \<and> collected_errors (error_handler st5) \<noteq> []
                          then (Inl (SchemaErrorsRaised schema
                                       (collected_errors (error_handler st5))
                                       (heap st5 ! check_obj2)),
                                st5)
                          else (Inr check_obj2, st5))))"

section \<open>What a validation is expected to report\<close>

text \<open>The results of the core checks \<open>cs\<close> that did not pass, in the order of \<open>cs\<close>, and
  the entries the error handler is given for them.\<close>

definition failed_results ::
  "(string \<times> (series \<Rightarrow> schema \<Rightarrow> core_check_result)) list \<Rightarrow> series \<Rightarrow> schema
     \<Rightarrow> core_check_result list" where
  "failed_results cs field_obj schema =
     filter (\<lambda>r. \<not> passed r) (map (\<lambda>(n, core_check). core_check field_obj schema) cs)"

definition core_entries ::
  "(string \<times> (series \<Rightarrow> schema \<Rightarrow> core_check_result)) list \<Rightarrow> series \<Rightarrow> schema \<Rightarrow> series
     \<Rightarrow> error_entry list" where
  "core_entries cs field_obj schema check_obj =
     map (\<lambda>r. (Some (reason_code r), core_check_error schema check_obj r))
       (failed_results cs field_obj schema)"

text \<open>The entries the declared checks \<open>cs\<close> (numbered from \<open>check_index\<close>) give rise to,
  in declaration order: a check that raises a \<^verbatim>\<open>SchemaError\<close> is reported as
  \<^verbatim>\<open>dataframe_check\<close>, one that raises anything else as \<^verbatim>\<open>check_error\<close>.\<close>

fun declared_entries ::
  "engine \<Rightarrow> series \<Rightarrow> schema \<Rightarrow> nat \<Rightarrow> string list \<Rightarrow> error_entry list" where
  "declared_entries eng check_obj schema check_index [] = []"
| "declared_entries eng check_obj schema check_index (chk # rest) =
     (case run_check eng check_obj schema chk check_index of
        Returned b \<Rightarrow> []
      | RaisedSchemaError err \<Rightarrow> [(Some ''dataframe_check'', err)]
      | RaisedException err0 \<Rightarrow>
          (case unwrap_dispatch err0 of
             None \<Rightarrow> []
           | Some err \<Rightarrow>
               [(Some ''check_error'', check_error schema check_obj chk check_index err)]))
     @ declared_entries eng check_obj schema (Suc check_index) rest"

text \<open>The booleans the declared checks return.\<close>

fun returned_results :: "engine \<Rightarrow> series \<Rightarrow> schema \<Rightarrow> nat \<Rightarrow> string list \<Rightarrow> bool list" where
  "returned_results eng check_obj schema check_index [] = []"
| "returned_results eng check_obj schema check_index (chk # rest) =
     (case run_check eng check_obj schema chk check_index of
        Returned b \<Rightarrow> [b]
      | RaisedSchemaError err \<Rightarrow> []
      | RaisedException err0 \<Rightarrow> [])
     @ returned_results eng check_obj schema (Suc check_index) rest"

text \<open>Every \<^verbatim>\<open>DispatchError\<close> raised by the declared checks carries a cause.\<close>

fun causes_known :: "engine \<Rightarrow> series \<Rightarrow> schema \<Rightarrow> nat \<Rightarrow> string list \<Rightarrow> bool" where
  "causes_known eng check_obj schema check_index [] = True"
| "causes_known eng check_obj schema check_index (chk # rest) =
     ((case run_check eng check_obj schema chk check_index of
         Returned b \<Rightarrow> True
       | RaisedSchemaError err \<Rightarrow> True
       | RaisedException err0 \<Rightarrow> unwrap_dispatch err0 \<noteq> None)
      \<and> causes_known eng check_obj schema (Suc check_index) rest)"

text \<open>Steps 1 and 2 of \<^verbatim>\<open>validate\<close> seen from outside: the reference validation goes on
  with, the store after the coercion attempt, and the coercion error if there was
  one.\<close>

definition coerce_outcome ::
  "backend \<Rightarrow> engine \<Rightarrow> heap \<Rightarrow> ref \<Rightarrow> schema \<Rightarrow> bool \<Rightarrow> ref \<times> heap \<times> schema_error option" where
  "coerce_outcome self eng h check_obj schema inplace =
     (let (h1, check_obj1) = preprocess h check_obj inplace
      in if coerce schema then
           (case coerce_dtype self eng h1 check_obj1 (Some schema) of
              (Inr check_obj2, h2) \<Rightarrow> (check_obj2, h2, None)
            | (Inl (SchemaErrorRaised exc), h2) \<Rightarrow> (check_obj1, h2, Some exc)
            | (Inl other, h2) \<Rightarrow> (check_obj1, h2, None))
         else (check_obj1, h1, None))"

text \<open>The object the checks run on, its subsample, and the coercion error.\<close>

definition checked_obj :: "backend \<Rightarrow> engine \<Rightarrow> heap \<Rightarrow> ref \<Rightarrow> schema \<Rightarrow> bool \<Rightarrow> series" where
  "checked_obj self eng h check_obj schema inplace =
     (case coerce_outcome self eng h check_obj schema inplace of (r, h', e) \<Rightarrow> h' ! r)"

definition coercion_error ::
  "backend \<Rightarrow> engine \<Rightarrow> heap \<Rightarrow> ref \<Rightarrow> schema \<Rightarrow> bool \<Rightarrow> schema_error option" where
  "coercion_error self eng h check_obj schema inplace =
     (case coerce_outcome self eng h check_obj schema inplace of (r, h', e) \<Rightarrow> e)"

text \<open>The entry the error handler is given for a coercion error: \<^verbatim>\<open>validate\<close> passes
  \<^verbatim>\<open>exc.reason_code\<close> as the reason code.\<close>

definition coercion_entries :: "schema_error option \<Rightarrow> error_entry list" where
  "coercion_entries e = (case e of None \<Rightarrow> [] | Some exc \<Rightarrow> [(e_reason_code exc, exc)])"

text \<open>The calls of a validation that runs to its last step.\<close>

definition all_calls :: "schema \<Rightarrow> event list" where
  "all_calls schema =
     [Preprocess] @ (if coerce schema then [Coerce] else []) @ [Subsample, Subsample]
     @ [CoreCheck ''check_name'', CoreCheck ''check_nullable'', CoreCheck ''check_unique'',
        CoreCheck ''check_dtype'']
     @ map DeclaredCheck [0..<length (checks schema)]"

section \<open>Example inputs\<close>

text \<open>A schema named \<open>a\<close> of dtype \<open>int64\<close>, not nullable, unique, coercing, with three
  declared checks; and variants of it.\<close>

definition ex_schema :: schema where
  "ex_schema =
     \<lparr>name = Some ''a'', dtype = Some ''int64'', nullable = False, unique = True,
      report_duplicates = ExcludeFirst, checks = [''c0'', ''c1'', ''c2''], coerce = True\<rparr>"

definition ex_schema_plain :: schema where
  "ex_schema_plain = ex_schema\<lparr>coerce := False\<rparr>"

definition ex_schema_untyped :: schema where
  "ex_schema_untyped = ex_schema\<lparr>dtype := None\<rparr>"

definition ex_schema_other :: schema where
  "ex_schema_other = ex_schema\<lparr>name := Some ''z'', dtype := None\<rparr>"

text \<open>A series named \<open>b\<close> with a null, a duplicate and a string; the same series named
  \<open>a\<close>; a series of integers that was validated against \<open>ex_schema_other\<close> before.\<close>

definition ex_series :: series where
  "ex_series =
     \<lparr>s_name = Some ''b'', s_dtype = ''object'', s_module = ''pandas.core.series'',
      rows = [(0, IntV 1), (1, NA), (2, IntV 1), (3, StrV ''x'')], pandera = Some None\<rparr>"

definition ex_series_a :: series where
  "ex_series_a = ex_series\<lparr>s_name := Some ''a''\<rparr>"

definition ex_series_ints :: series where
  "ex_series_ints =
     \<lparr>s_name = Some ''a'', s_dtype = ''object'', s_module = ''pandas.core.series'',
      rows = [(0, IntV 1), (1, IntV 2)], pandera = Some (Some ex_schema_other)\<rparr>"

text \<open>The series of the values 1, 1, 2, 1 on the default index, as a pandas and as a
  pyspark.pandas object.\<close>

definition ex_series_1121 :: series where
  "ex_series_1121 =
     \<lparr>s_name = Some ''a'', s_dtype = ''int64'', s_module = ''pandas.core.series'',
      rows = [(0, IntV 1), (1, IntV 1), (2, IntV 2), (3, IntV 1)], pandera = Some None\<rparr>"

definition ex_series_1121_spark :: series where
  "ex_series_1121_spark = ex_series_1121\<lparr>s_module := ''pyspark.pandas.series''\<rparr>"

definition is_int :: "cell \<Rightarrow> bool" where
  "is_int c = (case c of IntV i \<Rightarrow> True | NA \<Rightarrow> False | StrV s \<Rightarrow> False)"

text \<open>
  An engine. Coercion succeeds on a series of integers and returns a new object, whose
  accessor holds no schema; on any other series it fails after it has already
  rewritten the dtype of the object it was handed. The dtype check is per element. A
  subsample with \<open>head\<close> takes the first rows. Check \<open>c0\<close> raises a \<^verbatim>\<open>ValueError\<close>,
  check \<open>c1\<close> a \<^verbatim>\<open>DispatchError\<close> caused by a \<^verbatim>\<open>TypeError\<close>, every other check passes.
\<close>

definition ex_engine :: engine where
  "ex_engine =
     \<lparr>try_coerce = (\<lambda>d obj.
        if list_all (\<lambda>(i, v). is_int v) (rows obj)
        then (Inr (obj\<lparr>s_dtype := d, pandera := Some None\<rparr>), obj)
        else (Inl \<lparr>p_message = ''cannot coerce'',
                   p_failure_cases =
                     reshape_failure_cases (filter (\<lambda>(i, v). \<not> is_int v) (rows obj)) False\<rparr>,
              obj\<lparr>s_dtype := d\<rparr>)),
      engine_dtype = (\<lambda>d. d),
      dtype_check = (\<lambda>d actual obj. MaskResult (map (\<lambda>(i, v). is_int v) (rows obj))),
      select_rows = (\<lambda>rs h t s r. case h of Some n \<Rightarrow> take (nat n) rs | None \<Rightarrow> rs),
      run_check = (\<lambda>obj s c i.
        if c = ''c0'' then RaisedException (PyException ''ValueError'' [''boom''] None)
        else if c = ''c1'' then
          RaisedException
            (PyException ''DispatchError'' [''no match'']
               (Some (PyException ''TypeError'' [''bad''] None)))
        else Returned True)\<rparr>"

text \<open>The same engine, except that the \<^verbatim>\<open>DispatchError\<close> of check \<open>c1\<close> has no cause
  (\<^verbatim>\<open>__cause__\<close> is \<^verbatim>\<open>None\<close>).\<close>

definition ex_engine_nocause :: engine where
  "ex_engine_nocause =
     ex_engine\<lparr>run_check := (\<lambda>obj s c i.
        if c = ''c0'' then RaisedException (PyException ''ValueError'' [''boom''] None)
        else if c = ''c1'' then
          RaisedException (PyException ''DispatchError'' [''no match''] None)
        else Returned True)\<rparr>"

text \<open>The same engine, except that its dtype check compares the two dtypes and returns
  one boolean.\<close>

definition ex_engine_bool :: engine where
  "ex_engine_bool = ex_engine\<lparr>dtype_check := (\<lambda>d actual obj. BoolResult (actual = d))\<rparr>"


text \<open>The copy of \<open>ex_series\<close> after \<^verbatim>\<open>SeriesSchemaBackend.coerce_dtype\<close> has attached
  \<open>ex_schema\<close> and the engine's failed coercion has rewritten its dtype, and the error
  that \<^verbatim>\<open>coerce_dtype\<close> raises for it.\<close>

definition ex_coerced :: series where
  "ex_coerced = ex_series\<lparr>s_dtype := ''int64'', pandera := Some (Some ex_schema)\<rparr>"

definition ex_coercion_error :: schema_error where
  "ex_coercion_error =
     \<lparr>e_schema = ex_schema,
      e_data = ex_coerced,
      e_message =
        Some [Lit ''Error while coercing '', Lit (quoted ''a''), Lit '' to type '',
              Lit ''int64'', Lit '': '', Lit ''cannot coerce'', Lit '':'',
              Cases [(Some 1, NA), (Some 3, StrV ''x'')]],
      e_failure_cases = Some [(Some 1, NA), (Some 3, StrV ''x'')],
      e_check = Some (''coerce_dtype('' @ quoted ''int64'' @ '')''),
      e_check_index = None,
      e_reason_code = None\<rparr>"

section \<open>Lemmas on the loops and on the lazy pipeline\<close>

lemma run_core_checks_lazy:
  "lazy (error_handler st) \<Longrightarrow>
   run_core_checks cs f s d st =
     (None, st\<lparr>error_handler := (error_handler st)\<lparr>collected_errors :=
                  collected_errors (error_handler st) @ core_entries cs f s d\<rparr>,
               calls := calls st @ map (\<lambda>(n, c). CoreCheck n) cs\<rparr>)"
proof (induction cs arbitrary: st)
  case Nil
  then show ?case by (simp add: core_entries_def failed_results_def)
next
  case (Cons a cs)
  obtain n c where a: "a = (n, c)" by (cases a)
  show ?case
    using Cons.prems
    by (simp add: a Let_def collect_error_def Cons.IH core_entries_def failed_results_def)
qed

lemma run_checks_loop_lazy:
  "lazy (error_handler st) \<Longrightarrow> causes_known eng obj s i cs \<Longrightarrow>
   run_checks_loop eng obj s i cs acc st =
     (Inr (acc @ returned_results eng obj s i cs),
      st\<lparr>error_handler := (error_handler st)\<lparr>collected_errors :=
                  collected_errors (error_handler st) @ declared_entries eng obj s i cs\<rparr>,
         calls := calls st @ map DeclaredCheck [i..<i + length cs]\<rparr>)"
proof (induction cs arbitrary: st i acc)
  case Nil
  then show ?case by simp
next
  case (Cons c cs)
  have up: "map DeclaredCheck [i..<i + length (c # cs)] =
            DeclaredCheck i # map DeclaredCheck [Suc i..<Suc i + length cs]"
    by (simp add: upt_conv_Cons del: upt_Suc)
  show ?case
    unfolding up using Cons.prems
    by (cases "run_check eng obj s c i")
       (auto simp add: Let_def collect_error_def Cons.IH simp del: upt_Suc split: option.splits)
qed

lemma coerce_dtype_raises:
  "coerce_dtype self eng h r (Some s) = (Inl e, h') \<Longrightarrow> \<exists>exc. e = SchemaErrorRaised exc"
  by (cases self)
     (auto simp add: coerce_dtype_def ArraySchemaBackend_coerce_dtype_def
        SeriesSchemaBackend_coerce_dtype_def Let_def
        split: option.splits if_splits prod.splits sum.splits)

lemma validate_coerce_lazy:
  assumes "lazy (error_handler st)"
  shows "validate_coerce self eng r s st =
     (if coerce s then
        (case coerce_dtype self eng (heap st) r (Some s) of
           (Inr r', h) \<Rightarrow> (Inr r', st\<lparr>heap := h, calls := calls st @ [Coerce]\<rparr>)
         | (Inl (SchemaErrorRaised exc), h) \<Rightarrow>
             (Inr r, st\<lparr>heap := h,
                error_handler := (error_handler st)\<lparr>collected_errors :=
                   collected_errors (error_handler st) @ [(e_reason_code exc, exc)]\<rparr>,
                calls := calls st @ [Coerce]\<rparr>)
         | (Inl other, h) \<Rightarrow> (Inl other, st\<lparr>heap := h, calls := calls st @ [Coerce]\<rparr>))
      else (Inr r, st))"
  using assms
  by (auto simp add: validate_coerce_def collect_error_def split: prod.splits sum.splits raised.splits)

lemma core_calls:
  "map (\<lambda>(n, c). CoreCheck n) (core_checks eng) =
     [CoreCheck ''check_name'', CoreCheck ''check_nullable'', CoreCheck ''check_unique'',
      CoreCheck ''check_dtype'']"
  by (simp add: core_checks_def)

text \<open>A lazy validation up to the declared checks: whatever the coercion did, the four
  core checks have run and their errors have been collected.\<close>

lemma validate_lazy_checks:
  assumes co: "coerce_outcome self eng h r schema inplace = (r2, h2, ce)"
  shows "validate self eng h r schema head tail sample rs True inplace =
     (let obj = h2 ! r2;
          f = subsample eng obj head tail sample rs;
          st4 = \<lparr>heap = h2,
                 error_handler = \<lparr>lazy = True, collected_errors =
                   coercion_entries ce @ core_entries (core_checks eng) f schema obj\<rparr>,
                 calls = [Preprocess] @ (if coerce schema then [Coerce] else [])
                   @ [Subsample, Subsample, CoreCheck ''check_name'',
                      CoreCheck ''check_nullable'', CoreCheck ''check_unique'',
                      CoreCheck ''check_dtype'']\<rparr>
      in case run_checks eng f schema True st4 of
           (Inl exc, st5) \<Rightarrow> (Inl exc, st5)
         | (Inr check_results, st5) \<Rightarrow>
             if \<not> all_true check_results then (Inl AssertionError, st5)
             else if collected_errors (error_handler st5) \<noteq> []
             then (Inl (SchemaErrorsRaised schema (collected_errors (error_handler st5))
                          (heap st5 ! r2)), st5)
             else (Inr r2, st5))"
proof -
  obtain h1 r1 where p: "preprocess h r inplace = (h1, r1)" by (cases "preprocess h r inplace")
  show ?thesis
  proof (cases "coerce schema")
    case False
    then show ?thesis using co
      by (simp add: validate_def p Let_def coerce_outcome_def SchemaErrorHandler_def
          validate_coerce_lazy run_core_checks_lazy core_calls coercion_entries_def
          split: prod.splits sum.splits)
  next
    case True
    obtain cres hc where cd: "coerce_dtype self eng h1 r1 (Some schema) = (cres, hc)"
      by (cases "coerce_dtype self eng h1 r1 (Some schema)")
    show ?thesis
    proof (cases cres)
      case (Inr r')
      then show ?thesis using True cd co
        by (simp add: validate_def p Let_def coerce_outcome_def SchemaErrorHandler_def
            validate_coerce_lazy run_core_checks_lazy core_calls coercion_entries_def
            split: prod.splits sum.splits)
    next
      case (Inl e)
      then obtain exc where e: "e = SchemaErrorRaised exc"
        using coerce_dtype_raises cd by blast
      have ce: "ce = Some exc" "r2 = r1" "h2 = hc"
        using co True cd Inl e by (simp_all add: coerce_outcome_def p)
      show ?thesis using True cd Inl e unfolding ce
        by (simp add: validate_def p Let_def SchemaErrorHandler_def
            validate_coerce_lazy run_core_checks_lazy core_calls coercion_entries_def
            split: prod.splits sum.splits)
    qed
  qed
qed

text \<open>A lazy validation whose declared checks raise no \<^verbatim>\<open>DispatchError\<close> without a
  cause runs to its last step.\<close>

lemma validate_lazy_all:
  assumes co: "coerce_outcome self eng h r schema inplace = (r2, h2, ce)"
    and ck: "causes_known eng (subsample eng (h2 ! r2) head tail sample rs) schema 0
               (checks schema)"
  shows "validate self eng h r schema head tail sample rs True inplace =
     (let obj = h2 ! r2;
          f = subsample eng obj head tail sample rs;
          errs = coercion_entries ce @ core_entries (core_checks eng) f schema obj
                 @ declared_entries eng f schema 0 (checks schema)
      in (if \<not> all_true (returned_results eng f schema 0 (checks schema))
          then Inl AssertionError
          else if errs \<noteq> [] then Inl (SchemaErrorsRaised schema errs obj)
          else Inr r2,
          \<lparr>heap = h2, error_handler = \<lparr>lazy = True, collected_errors = errs\<rparr>,
           calls = all_calls schema\<rparr>))"
  unfolding validate_lazy_checks [OF co]
  by (simp add: Let_def run_checks_def run_checks_loop_lazy ck all_calls_def)

text \<open>The state in which a lazy validation ends is the state in which its declared
  checks end.\<close>

lemma validate_lazy_snd:
  assumes co: "coerce_outcome self eng h r schema inplace = (r2, h2, ce)"
  shows "snd (validate self eng h r schema head tail sample rs True inplace) =
     snd (run_checks eng (subsample eng (h2 ! r2) head tail sample rs) schema True
       \<lparr>heap = h2,
        error_handler = \<lparr>lazy = True, collected_errors =
          coercion_entries ce @ core_entries (core_checks eng)
            (subsample eng (h2 ! r2) head tail sample rs) schema (h2 ! r2)\<rparr>,
        calls = [Preprocess] @ (if coerce schema then [Coerce] else [])
          @ [Subsample, Subsample, CoreCheck ''check_name'',
             CoreCheck ''check_nullable'', CoreCheck ''check_unique'',
             CoreCheck ''check_dtype'']\<rparr>)"
  unfolding validate_lazy_checks [OF co]
  by (simp add: Let_def split: prod.splits sum.splits)

text \<open>The declared checks only add entries to the handler's list, none of them under
  the reason code \<open>wrong_dtype\<close>.\<close>

lemma run_checks_loop_collected:
  "\<exists>es. collected_errors (error_handler (snd (run_checks_loop eng obj s i cs acc st)))
           = collected_errors (error_handler st) @ es
        \<and> filter (\<lambda>x. fst x = Some ''wrong_dtype'') es = []"
proof (induction cs arbitrary: st i acc)
  case Nil
  show ?case by (rule exI [of _ "[]"]) simp
next
  case (Cons c cs)
  let ?st1 = "st\<lparr>calls := calls st @ [DeclaredCheck i]\<rparr>"
  have stop: "\<And>x. \<exists>es. collected_errors (error_handler
        (snd (Inl x :: raised + bool list, ?st1)))
           = collected_errors (error_handler st) @ es
        \<and> filter (\<lambda>x. fst x = Some ''wrong_dtype'') es = []"
    by (rule exI [of _ "[]"]) simp
  have step: "\<And>acc' (st' :: vstate) en.
      collected_errors (error_handler st') = collected_errors (error_handler st) @ en \<Longrightarrow>
      filter (\<lambda>x. fst x = Some ''wrong_dtype'') en = [] \<Longrightarrow>
      \<exists>es. collected_errors (error_handler
               (snd (run_checks_loop eng obj s (Suc i) cs acc' st')))
             = collected_errors (error_handler st) @ es
          \<and> filter (\<lambda>x. fst x = Some ''wrong_dtype'') es = []"
  proof -
    fix acc' and st' :: vstate and en
    assume e: "collected_errors (error_handler st') = collected_errors (error_handler st) @ en"
      and f: "filter (\<lambda>x. fst x = Some ''wrong_dtype'') en = []"
    from Cons.IH [of "Suc i" acc' st'] obtain es where ee:
      "collected_errors (error_handler (snd (run_checks_loop eng obj s (Suc i) cs acc' st')))
           = collected_errors (error_handler st') @ es
        \<and> filter (\<lambda>x. fst x = Some ''wrong_dtype'') es = []"
      by (rule exE)
    show "\<exists>es. collected_errors (error_handler
               (snd (run_checks_loop eng obj s (Suc i) cs acc' st')))
             = collected_errors (error_handler st) @ es
          \<and> filter (\<lambda>x. fst x = Some ''wrong_dtype'') es = []"
      using ee e f by (intro exI [of _ "en @ es"]) simp
  qed
  show ?case
  proof (cases "run_check eng obj s c i")
    case (Returned b)
    have "run_checks_loop eng obj s i (c # cs) acc st =
            run_checks_loop eng obj s (Suc i) cs (acc @ [b]) ?st1"
      using Returned by (simp add: Let_def)
    then show ?thesis
      using step [of ?st1 "[]" "acc @ [b]"] by simp
  next
    case (RaisedSchemaError err)
    show ?thesis
    proof (cases "lazy (error_handler st)")
      case False
      have "run_checks_loop eng obj s i (c # cs) acc st = (Inl (SchemaErrorRaised err), ?st1)"
        using RaisedSchemaError False by (simp add: Let_def collect_error_def)
      then show ?thesis using stop [of "SchemaErrorRaised err"] by simp
    next
      case True
      let ?eh = "(error_handler st)\<lparr>collected_errors :=
                   collected_errors (error_handler st) @ [(Some ''dataframe_check'', err)]\<rparr>"
      have "run_checks_loop eng obj s i (c # cs) acc st =
              run_checks_loop eng obj s (Suc i) cs acc (?st1\<lparr>error_handler := ?eh\<rparr>)"
        using RaisedSchemaError True by (simp add: Let_def collect_error_def)
      then show ?thesis
        using step [of "?st1\<lparr>error_handler := ?eh\<rparr>" "[(Some ''dataframe_check'', err)]" acc]
        by simp
    qed
  next
    case (RaisedException err0)
    show ?thesis
    proof (cases "unwrap_dispatch err0")
      case None
      have "run_checks_loop eng obj s i (c # cs) acc st = (Inl AttributeError, ?st1)"
        using RaisedException None by (simp add: Let_def)
      then show ?thesis using stop [of AttributeError] by simp
    next
      case (Some err)
      let ?e = "check_error s obj c i err"
      show ?thesis
      proof (cases "lazy (error_handler st)")
        case False
        have "run_checks_loop eng obj s i (c # cs) acc st = (Inl (SchemaErrorRaised ?e), ?st1)"
          using RaisedException Some False by (simp add: Let_def collect_error_def)
        then show ?thesis using stop [of "SchemaErrorRaised ?e"] by simp
      next
        case True
        let ?eh = "(error_handler st)\<lparr>collected_errors :=
                     collected_errors (error_handler st) @ [(Some ''check_error'', ?e)]\<rparr>"
        have "run_checks_loop eng obj s i (c # cs) acc st =
                run_checks_loop eng obj s (Suc i) cs acc (?st1\<lparr>error_handler := ?eh\<rparr>)"
          using RaisedException Some True by (simp add: Let_def collect_error_def)
        then show ?thesis
          using step [of "?st1\<lparr>error_handler := ?eh\<rparr>" "[(Some ''check_error'', ?e)]" acc]
          by simp
      qed
    qed
  qed
qed

section \<open>Lemmas on duplicates\<close>

lemma any_true_iff: "any_true m \<longleftrightarrow> True \<in> set m"
  by (induction m) (auto simp add: any_true_def)

lemma take_mem:
  assumes "i < length vs"
  shows "vs ! i \<in> set (take i vs) \<longleftrightarrow> (\<exists>j<i. vs ! j = vs ! i)"
proof -
  have "set (take i vs) = nth vs ` {0..<i}"
    using assms by (simp add: nth_image)
  then have "vs ! i \<in> set (take i vs) \<longleftrightarrow> (\<exists>j\<in>{0..<i}. vs ! i = vs ! j)"
    by (simp add: image_iff)
  also have "\<dots> \<longleftrightarrow> (\<exists>j<i. vs ! j = vs ! i)"
    by (metis atLeastLessThan_iff zero_le)
  finally show ?thesis .
qed

lemma drop_mem:
  assumes "i < length vs"
  shows "vs ! i \<in> set (drop (Suc i) vs) \<longleftrightarrow> (\<exists>j. i < j \<and> j < length vs \<and> vs ! j = vs ! i)"
proof
  assume "vs ! i \<in> set (drop (Suc i) vs)"
  then obtain k where k: "k < length (drop (Suc i) vs)" and e: "drop (Suc i) vs ! k = vs ! i"
    unfolding in_set_conv_nth by blast
  from k have "Suc i + k < length vs" by simp
  moreover from e k have "vs ! (Suc i + k) = vs ! i" by simp
  ultimately show "\<exists>j. i < j \<and> j < length vs \<and> vs ! j = vs ! i"
    by (intro exI [of _ "Suc i + k"]) simp
next
  assume "\<exists>j. i < j \<and> j < length vs \<and> vs ! j = vs ! i"
  then obtain j where j: "i < j" "j < length vs" "vs ! j = vs ! i" by blast
  have l: "j - Suc i < length (drop (Suc i) vs)" using j by simp
  have "drop (Suc i) vs ! (j - Suc i) = vs ! i" using j by simp
  then show "vs ! i \<in> set (drop (Suc i) vs)"
    using l nth_mem by metis
qed

lemma not_distinct_nth:
  "\<not> distinct vs \<longleftrightarrow> (\<exists>i j. i < j \<and> j < length vs \<and> vs ! i = vs ! j)"
proof
  assume "\<not> distinct vs"
  then obtain i j where ij: "i < length vs" "j < length vs" "i \<noteq> j" "vs ! i = vs ! j"
    unfolding distinct_conv_nth by blast
  show "\<exists>i j. i < j \<and> j < length vs \<and> vs ! i = vs ! j"
  proof (cases "i < j")
    case True
    with ij show ?thesis by blast
  next
    case False
    with ij have "j < i" by simp
    with ij show ?thesis by metis
  qed
next
  assume "\<exists>i j. i < j \<and> j < length vs \<and> vs ! i = vs ! j"
  then obtain i j where ij: "i < j" "j < length vs" "vs ! i = vs ! j" by blast
  then have "i < length vs" "i \<noteq> j" by simp_all
  with ij show "\<not> distinct vs" unfolding distinct_conv_nth by blast
qed

lemma any_map_upt: "any_true (map P [0..<n]) \<longleftrightarrow> (\<exists>i<n. P i)"
  by (auto simp add: any_true_iff)

lemma duplicated_any: "any_true (duplicated k vs) \<longleftrightarrow> \<not> distinct vs"
proof (cases k)
  case KeepFirst
  have "any_true (duplicated k vs) \<longleftrightarrow> (\<exists>i<length vs. vs ! i \<in> set (take i vs))"
    by (simp add: duplicated_def KeepFirst any_map_upt)
  also have "\<dots> \<longleftrightarrow> (\<exists>i<length vs. \<exists>j<i. vs ! j = vs ! i)"
    using take_mem by blast
  also have "\<dots> \<longleftrightarrow> \<not> distinct vs"
    unfolding not_distinct_nth by blast
  finally show ?thesis .
next
  case KeepLast
  have "any_true (duplicated k vs) \<longleftrightarrow> (\<exists>i<length vs. vs ! i \<in> set (drop (Suc i) vs))"
    by (simp add: duplicated_def KeepLast any_map_upt)
  also have "\<dots> \<longleftrightarrow> (\<exists>i<length vs. \<exists>j. i < j \<and> j < length vs \<and> vs ! j = vs ! i)"
    using drop_mem by blast
  also have "\<dots> \<longleftrightarrow> \<not> distinct vs"
    unfolding not_distinct_nth by (metis order.strict_trans)
  finally show ?thesis .
next
  case KeepFalse
  have "any_true (duplicated k vs) \<longleftrightarrow>
      (\<exists>i<length vs. vs ! i \<in> set (take i vs) \<or> vs ! i \<in> set (drop (Suc i) vs))"
    by (simp add: duplicated_def KeepFalse any_map_upt)
  also have "\<dots> \<longleftrightarrow> (\<exists>i<length vs. vs ! i \<in> set (drop (Suc i) vs))"
  proof
    assume "\<exists>i<length vs. vs ! i \<in> set (take i vs) \<or> vs ! i \<in> set (drop (Suc i) vs)"
    then obtain i where i: "i < length vs"
      and d: "vs ! i \<in> set (take i vs) \<or> vs ! i \<in> set (drop (Suc i) vs)" by blast
    from d show "\<exists>i<length vs. vs ! i \<in> set (drop (Suc i) vs)"
    proof
      assume "vs ! i \<in> set (take i vs)"
      then obtain j where j: "j < i" "vs ! j = vs ! i" using take_mem [OF i] by blast
      then have "j < length vs" using i by simp
      moreover have "vs ! j \<in> set (drop (Suc j) vs)"
        using drop_mem [OF \<open>j < length vs\<close>] j i by metis
      ultimately show ?thesis by blast
    next
      assume "vs ! i \<in> set (drop (Suc i) vs)"
      with i show ?thesis by blast
    qed
  next
    assume "\<exists>i<length vs. vs ! i \<in> set (drop (Suc i) vs)"
    then show "\<exists>i<length vs. vs ! i \<in> set (take i vs) \<or> vs ! i \<in> set (drop (Suc i) vs)"
      by blast
  qed
  also have "\<dots> \<longleftrightarrow> (\<exists>i<length vs. \<exists>j. i < j \<and> j < length vs \<and> vs ! j = vs ! i)"
    using drop_mem by blast
  also have "\<dots> \<longleftrightarrow> \<not> distinct vs"
    unfolding not_distinct_nth by (metis order.strict_trans)
  finally show ?thesis .
qed

lemma check_unique_passed:
  "passed (check_unique obj s) \<longleftrightarrow> (\<not> unique s \<or> distinct (map snd (rows obj)))"
  by (simp add: check_unique_def Let_def to_frame_duplicated_def duplicated_any)

section \<open>Lemmas on the store\<close>

lemma map_update_same: "f x = f (h ! i) \<Longrightarrow> map f (h[i := x]) = map f h"
  by (induction h arbitrary: i) (auto split: nat.splits)

lemma run_core_checks_heap:
  "heap (snd (run_core_checks cs f s d st)) = heap st"
proof (induction cs arbitrary: st)
  case Nil
  then show ?case by simp
next
  case (Cons a cs)
  obtain n c where a: "a = (n, c)" by (cases a)
  show ?case
    by (simp add: a Let_def Cons.IH split: sum.splits)
qed

lemma run_checks_loop_heap:
  "heap (snd (run_checks_loop eng obj s i cs acc st)) = heap st"
proof (induction cs arbitrary: st i acc)
  case Nil
  then show ?case by simp
next
  case (Cons c cs)
  show ?case
    by (simp add: Let_def Cons.IH split: sum.splits check_outcome.splits option.splits)
qed

lemma array_coerce_frame:
  "n \<le> r \<Longrightarrow> n \<le> length h \<Longrightarrow>
   take n (snd (ArraySchemaBackend_coerce_dtype eng h r sa)) = take n h"
  by (simp add: ArraySchemaBackend_coerce_dtype_def
      split: option.splits prod.splits sum.splits)

lemma array_coerce_ref:
  "ArraySchemaBackend_coerce_dtype eng h r sa = (Inr r', h') \<Longrightarrow> n \<le> r \<Longrightarrow> n \<le> length h
   \<Longrightarrow> n \<le> r'"
  by (auto simp add: ArraySchemaBackend_coerce_dtype_def
      split: option.splits prod.splits sum.splits if_splits)

lemma series_coerce_frame:
  assumes "n \<le> r" "n \<le> length h"
  shows "take n (snd (SeriesSchemaBackend_coerce_dtype eng h r sa)) = take n h"
proof -
  define h1 where "h1 = (if hasattr_pandera (h ! r) then h[r := add_schema (h ! r) sa] else h)"
  have l1: "n \<le> length h1" and t1: "take n h1 = take n h"
    using assms by (simp_all add: h1_def)
  obtain res h2 where a: "ArraySchemaBackend_coerce_dtype eng h1 r sa = (res, h2)"
    by (cases "ArraySchemaBackend_coerce_dtype eng h1 r sa")
  have t2: "take n h2 = take n h"
    using array_coerce_frame [OF assms(1) l1, of eng sa] a t1 by simp
  show ?thesis
  proof (cases res)
    case (Inl e)
    then show ?thesis
      using a t2 by (simp add: SeriesSchemaBackend_coerce_dtype_def Let_def h1_def [symmetric])
  next
    case (Inr r')
    have "n \<le> r'" using array_coerce_ref [OF a [unfolded Inr] assms(1) l1] .
    then show ?thesis
      using a t2 Inr
      by (simp add: SeriesSchemaBackend_coerce_dtype_def Let_def h1_def [symmetric])
  qed
qed

lemma coerce_dtype_frame:
  "n \<le> r \<Longrightarrow> n \<le> length h \<Longrightarrow> take n (snd (coerce_dtype self eng h r sa)) = take n h"
  by (cases self) (simp_all add: coerce_dtype_def array_coerce_frame series_coerce_frame)

lemma validate_coerce_frame:
  "n \<le> r \<Longrightarrow> n \<le> length (heap st) \<Longrightarrow>
   take n (heap (snd (validate_coerce self eng r s st))) = take n (heap st)"
  using coerce_dtype_frame [of n r "heap st" self eng "Some s"]
  by (auto simp add: validate_coerce_def split: prod.splits sum.splits raised.splits)

lemma validate_heap:
  "heap (snd (validate self eng h r schema head tail sample rs lz inplace)) =
   heap (snd (validate_coerce self eng (snd (preprocess h r inplace)) schema
      \<lparr>heap = fst (preprocess h r inplace), error_handler = SchemaErrorHandler lz,
       calls = [Preprocess]\<rparr>))"
proof -
  obtain h1 r1 where p: "preprocess h r inplace = (h1, r1)" by (cases "preprocess h r inplace")
  obtain cres st2 where c: "validate_coerce self eng r1 schema
      \<lparr>heap = h1, error_handler = SchemaErrorHandler lz, calls = [Preprocess]\<rparr> = (cres, st2)"
    by (cases "validate_coerce self eng r1 schema
      \<lparr>heap = h1, error_handler = SchemaErrorHandler lz, calls = [Preprocess]\<rparr>")
  show ?thesis
  proof (cases cres)
    case (Inl e)
    then show ?thesis by (simp add: validate_def p c)
  next
    case (Inr r2)
    let ?f = "subsample eng (heap st2 ! r2) head tail sample rs"
    let ?st3 = "st2\<lparr>calls := calls st2 @ [Subsample, Subsample]\<rparr>"
    obtain x st4 where k: "run_core_checks (core_checks eng) ?f schema (heap st2 ! r2) ?st3 = (x, st4)"
      by (cases "run_core_checks (core_checks eng) ?f schema (heap st2 ! r2) ?st3")
    have h4: "heap st4 = heap st2"
      using run_core_checks_heap [of "core_checks eng" ?f schema "heap st2 ! r2" ?st3] k
      by simp
    obtain y st5 where d: "run_checks eng ?f schema lz st4 = (y, st5)"
      by (cases "run_checks eng ?f schema lz st4")
    have h5: "heap st5 = heap st2"
      using run_checks_loop_heap [of eng ?f schema 0 "checks schema" "[]" st4] d h4
      by (simp add: run_checks_def)
    show ?thesis
      using Inr k d h4 h5
      by (simp add: validate_def p c Let_def split: option.splits sum.splits)
  qed
qed

section \<open>Lemmas on the eager pipeline\<close>

lemma run_core_checks_eager:
  "\<not> lazy (error_handler st) \<Longrightarrow>
   run_core_checks (core_checks eng) f s d st =
     (if \<not> passed (check_name f s) then
        (Some (SchemaErrorRaised (core_check_error s d (check_name f s))),
         st\<lparr>calls := calls st @ [CoreCheck ''check_name'']\<rparr>)
      else if \<not> passed (check_nullable f s) then
        (Some (SchemaErrorRaised (core_check_error s d (check_nullable f s))),
         st\<lparr>calls := calls st @ [CoreCheck ''check_name'', CoreCheck ''check_nullable'']\<rparr>)
      else if \<not> passed (check_unique f s) then
        (Some (SchemaErrorRaised (core_check_error s d (check_unique f s))),
         st\<lparr>calls := calls st @ [CoreCheck ''check_name'', CoreCheck ''check_nullable'',
                                  CoreCheck ''check_unique'']\<rparr>)
      else if \<not> passed (check_dtype eng f s) then
        (Some (SchemaErrorRaised (core_check_error s d (check_dtype eng f s))),
         st\<lparr>calls := calls st @ [CoreCheck ''check_name'', CoreCheck ''check_nullable'',
                                  CoreCheck ''check_unique'', CoreCheck ''check_dtype'']\<rparr>)
      else
        (None,
         st\<lparr>calls := calls st @ [CoreCheck ''check_name'', CoreCheck ''check_nullable'',
                                  CoreCheck ''check_unique'', CoreCheck ''check_dtype'']\<rparr>))"
  by (simp add: core_checks_def Let_def collect_error_def)

lemma validate_coerce_eager:
  assumes "\<not> lazy (error_handler st)"
  shows "validate_coerce self eng r s st =
     (if coerce s then
        (case coerce_dtype self eng (heap st) r (Some s) of
           (res, h) \<Rightarrow> (res, st\<lparr>heap := h, calls := calls st @ [Coerce]\<rparr>))
      else (Inr r, st))"
  using assms
  by (auto simp add: validate_coerce_def collect_error_def
      split: prod.splits sum.splits raised.splits)

text \<open>The outcome of an eager validation whose coercion step raised nothing.\<close>

lemma validate_eager_checks:
  assumes co: "coerce_outcome self eng h r schema inplace = (r2, h2, None)"
  shows "validate self eng h r schema head tail sample rs False inplace =
     (let obj = h2 ! r2;
          f = subsample eng obj head tail sample rs;
          st3 = \<lparr>heap = h2, error_handler = SchemaErrorHandler False,
                 calls = [Preprocess] @ (if coerce schema then [Coerce] else [])
                         @ [Subsample, Subsample]\<rparr>
      in case run_core_checks (core_checks eng) f schema obj st3 of
           (Some exc, st4) \<Rightarrow> (Inl exc, st4)
         | (None, st4) \<Rightarrow>
             (case run_checks eng f schema False st4 of
                (Inl exc, st5) \<Rightarrow> (Inl exc, st5)
              | (Inr check_results, st5) \<Rightarrow>
                  if \<not> all_true check_results then (Inl AssertionError, st5)
                  else (Inr r2, st5)))"
proof -
  obtain h1 r1 where p: "preprocess h r inplace = (h1, r1)" by (cases "preprocess h r inplace")
  show ?thesis
  proof (cases "coerce schema")
    case False
    then show ?thesis using co
      by (simp add: validate_def p Let_def coerce_outcome_def SchemaErrorHandler_def
          validate_coerce_eager split: prod.splits option.splits sum.splits)
  next
    case True
    obtain cres hc where cd: "coerce_dtype self eng h1 r1 (Some schema) = (cres, hc)"
      by (cases "coerce_dtype self eng h1 r1 (Some schema)")
    show ?thesis
    proof (cases cres)
      case (Inr r')
      then show ?thesis using True cd co
        by (simp add: validate_def p Let_def coerce_outcome_def SchemaErrorHandler_def
            validate_coerce_eager split: prod.splits option.splits sum.splits)
    next
      case (Inl e)
      then obtain exc where e: "e = SchemaErrorRaised exc"
        using coerce_dtype_raises cd by blast
      then show ?thesis using True cd co Inl
        by (simp add: p coerce_outcome_def)
    qed
  qed
qed

lemma validate_eager_coercion_error:
  assumes co: "coerce_outcome self eng h r schema inplace = (r2, h2, Some exc)"
  shows "validate self eng h r schema head tail sample rs False inplace =
     (Inl (SchemaErrorRaised exc),
      \<lparr>heap = h2, error_handler = SchemaErrorHandler False, calls = [Preprocess, Coerce]\<rparr>)"
proof -
  obtain h1 r1 where p: "preprocess h r inplace = (h1, r1)" by (cases "preprocess h r inplace")
  have c: "coerce schema"
    using co by (auto simp add: coerce_outcome_def p split: if_splits)
  obtain cres hc where cd: "coerce_dtype self eng h1 r1 (Some schema) = (cres, hc)"
    by (cases "coerce_dtype self eng h1 r1 (Some schema)")
  have "cres = Inl (SchemaErrorRaised exc) \<and> hc = h2"
    using co c cd by (auto simp add: coerce_outcome_def p split: sum.splits raised.splits)
  then show ?thesis
    using c cd
    by (simp add: validate_def p Let_def SchemaErrorHandler_def validate_coerce_eager)
qed

section \<open>Lemmas on the core checks\<close>

lemma check_name_passed:
  "passed (check_name f s) \<longleftrightarrow> name s = None \<or> s_name f = name s"
  by (simp add: check_name_def)

lemma check_nullable_passed:
  "passed (check_nullable f s) \<longleftrightarrow> nullable s \<or> NA \<notin> snd ` set (rows f)"
  by (auto simp add: check_nullable_def Let_def any_true_iff isna_def image_iff)

lemma check_dtype_passed:
  "passed (check_dtype eng f s) \<longleftrightarrow>
     (case dtype s of
        None \<Rightarrow> True
      | Some d \<Rightarrow>
          (case dtype_check eng d (engine_dtype eng (s_dtype f)) f of
             BoolResult b \<Rightarrow> b
           | MaskResult m \<Rightarrow> all_true m))"
  by (simp add: check_dtype_def Let_def split: option.splits dtype_check_results.splits)

lemma core_reason_codes:
  "reason_code (check_name f s) = ''wrong_field_name''"
  "reason_code (check_nullable f s) = ''series_contains_nulls''"
  "reason_code (check_unique f s) = ''series_contains_duplicates''"
  "reason_code (check_dtype eng f s) = ''wrong_dtype''"
  by (simp_all add: check_name_def check_nullable_def check_unique_def check_dtype_def Let_def
      split: option.splits dtype_check_results.splits)

section \<open>Lemmas on the order of the calls\<close>


lemma declared_calls_Cons:
  "map DeclaredCheck [i..<i + length (c # cs)] =
     DeclaredCheck i # map DeclaredCheck [Suc i..<Suc i + length cs]"
  by (simp add: upt_conv_Cons del: upt_Suc)

lemma run_checks_loop_calls:
  "\<exists>k\<le>length cs.
     calls (snd (run_checks_loop eng obj s i cs acc st)) =
       calls st @ take k (map DeclaredCheck [i..<i + length cs])
     \<and> ((\<exists>r. fst (run_checks_loop eng obj s i cs acc st) = Inr r) \<longrightarrow> k = length cs)"
proof (induction cs arbitrary: st i acc)
  case Nil
  then show ?case by simp
next
  case (Cons c cs)
  let ?st1 = "st\<lparr>calls := calls st @ [DeclaredCheck i]\<rparr>"
  let ?all = "map DeclaredCheck [i..<i + length (c # cs)]"
  have step: "\<And>acc' (st'::vstate). calls st' = calls ?st1 \<Longrightarrow>
     \<exists>k\<le>length (c # cs).
       calls (snd (run_checks_loop eng obj s (Suc i) cs acc' st')) = calls st @ take k ?all
       \<and> ((\<exists>r. fst (run_checks_loop eng obj s (Suc i) cs acc' st') = Inr r)
            \<longrightarrow> k = length (c # cs))"
  proof -
    fix acc' and st' :: vstate assume e: "calls st' = calls ?st1"
    obtain k where k: "k \<le> length cs"
      "calls (snd (run_checks_loop eng obj s (Suc i) cs acc' st')) =
         calls st' @ take k (map DeclaredCheck [Suc i..<Suc i + length cs])"
      "(\<exists>r. fst (run_checks_loop eng obj s (Suc i) cs acc' st') = Inr r) \<longrightarrow> k = length cs"
      using Cons.IH [of "Suc i" acc' st'] by blast
    have "calls (snd (run_checks_loop eng obj s (Suc i) cs acc' st')) =
         calls st @ take (Suc k) ?all"
      unfolding declared_calls_Cons k(2) e by simp
    then show "\<exists>k\<le>length (c # cs).
       calls (snd (run_checks_loop eng obj s (Suc i) cs acc' st')) = calls st @ take k ?all
       \<and> ((\<exists>r. fst (run_checks_loop eng obj s (Suc i) cs acc' st') = Inr r)
            \<longrightarrow> k = length (c # cs))"
      using k(1) k(3) by (intro exI [of _ "Suc k"]) simp
  qed
  have stop: "\<And>x. \<exists>k\<le>length (c # cs).
       calls (snd (Inl x :: raised + bool list, ?st1)) = calls st @ take k ?all
       \<and> ((\<exists>r. fst (Inl x :: raised + bool list, ?st1) = Inr r) \<longrightarrow> k = length (c # cs))"
    unfolding declared_calls_Cons by (intro exI [of _ "Suc 0"]) simp
  show ?case
  proof (cases "run_check eng obj s c i")
    case (Returned b)
    have "run_checks_loop eng obj s i (c # cs) acc st =
            run_checks_loop eng obj s (Suc i) cs (acc @ [b]) ?st1"
      using Returned by (simp add: Let_def)
    then show ?thesis
      using step [of ?st1 "acc @ [b]"] by simp
  next
    case (RaisedSchemaError err)
    show ?thesis
    proof (cases "collect_error (error_handler ?st1) (Some ''dataframe_check'') err")
      case (Inl x)
      have "run_checks_loop eng obj s i (c # cs) acc st = (Inl x, ?st1)"
        using RaisedSchemaError Inl by (simp add: Let_def)
      then show ?thesis using stop [of x] by simp
    next
      case (Inr eh)
      have "run_checks_loop eng obj s i (c # cs) acc st =
              run_checks_loop eng obj s (Suc i) cs acc (?st1\<lparr>error_handler := eh\<rparr>)"
        using RaisedSchemaError Inr by (simp add: Let_def)
      then show ?thesis
        using step [of "?st1\<lparr>error_handler := eh\<rparr>" acc] by simp
    qed
  next
    case (RaisedException err0)
    show ?thesis
    proof (cases "unwrap_dispatch err0")
      case None
      have "run_checks_loop eng obj s i (c # cs) acc st = (Inl AttributeError, ?st1)"
        using RaisedException None by (simp add: Let_def)
      then show ?thesis using stop [of AttributeError] by simp
    next
      case (Some err)
      show ?thesis
      proof (cases "collect_error (error_handler ?st1) (Some ''check_error'')
                      (check_error s obj c i err)")
        case (Inl x)
        have "run_checks_loop eng obj s i (c # cs) acc st = (Inl x, ?st1)"
          using RaisedException Some Inl by (simp add: Let_def)
        then show ?thesis using stop [of x] by simp
      next
        case (Inr eh)
        have "run_checks_loop eng obj s i (c # cs) acc st =
                run_checks_loop eng obj s (Suc i) cs acc (?st1\<lparr>error_handler := eh\<rparr>)"
          using RaisedException Some Inr by (simp add: Let_def)
        then show ?thesis
          using step [of "?st1\<lparr>error_handler := eh\<rparr>" acc] by simp
      qed
    qed
  qed
qed




section \<open>Lemmas on the example inputs\<close>

lemma ex_copy:
  "series_copy ex_series = ex_series"
  "series_copy ex_series_a = ex_series_a"
  by (simp_all add: series_copy_def ex_series_a_def ex_series_def)

lemma ex_coerce_fails:
  "coerce_dtype SeriesSchemaBackend ex_engine [ex_series, ex_series] 1 (Some ex_schema)
     = (Inl (SchemaErrorRaised ex_coercion_error), [ex_series, ex_coerced])"
  by (simp add: coerce_dtype_def SeriesSchemaBackend_coerce_dtype_def
      ArraySchemaBackend_coerce_dtype_def Let_def hasattr_pandera_def add_schema_def
      ex_engine_def ex_series_def ex_schema_def ex_coerced_def ex_coercion_error_def
      is_int_def reshape_failure_cases_def str_opt_def)

lemma ex_outcome_plain:
  "series_copy obj = obj \<Longrightarrow>
   coerce_outcome SeriesSchemaBackend eng [obj] 0 ex_schema_plain False
     = (1, [obj, obj], None)"
  by (simp add: coerce_outcome_def preprocess_def ex_schema_plain_def)

lemma ex_outcome:
  "coerce_outcome SeriesSchemaBackend ex_engine [ex_series] 0 ex_schema False
     = (1, [ex_series, ex_coerced], Some ex_coercion_error)"
proof -
  have c: "coerce ex_schema" by (simp add: ex_schema_def)
  have p: "preprocess [ex_series] 0 False = ([ex_series, ex_series], 1)"
    by (simp add: preprocess_def ex_copy)
  show ?thesis
    by (simp add: coerce_outcome_def p c ex_coerce_fails del: One_nat_def)
qed

lemma ex_subsample: "subsample eng obj None None None rs = obj"
  by (simp add: subsample_def)

lemma ex_checks_fail:
  "\<not> passed (check_name ex_series ex_schema_plain)"
  "\<not> passed (check_nullable ex_series ex_schema_plain)"
  "\<not> passed (check_unique ex_series ex_schema_plain)"
  "\<not> passed (check_dtype ex_engine ex_series ex_schema_plain)"
  by (simp_all add: check_name_passed check_nullable_passed check_unique_passed
      check_dtype_passed ex_series_def ex_schema_plain_def ex_schema_def ex_engine_def
      all_true_def is_int_def)

lemma ex_checks_a:
  "passed (check_name ex_series_a ex_schema_plain)"
  "\<not> passed (check_nullable ex_series_a ex_schema_plain)"
  "\<not> passed (check_dtype ex_engine ex_series_a ex_schema_plain)"
  by (simp_all add: check_name_passed check_nullable_passed
      check_dtype_passed ex_series_a_def ex_series_def ex_schema_plain_def ex_schema_def
      ex_engine_def all_true_def is_int_def)


lemma ex_eager_a:
  "validate SeriesSchemaBackend ex_engine [ex_series_a] 0 ex_schema_plain
       None None None None False False
     = (Inl (SchemaErrorRaised
               (core_check_error ex_schema_plain ex_series_a
                  (check_nullable ex_series_a ex_schema_plain))),
        \<lparr>heap = [ex_series_a, ex_series_a], error_handler = SchemaErrorHandler False,
         calls = [Preprocess, Subsample, Subsample, CoreCheck ''check_name'',
                  CoreCheck ''check_nullable'']\<rparr>)"
proof -
  have c: "\<not> coerce ex_schema_plain" by (simp add: ex_schema_plain_def)
  show ?thesis
    using validate_eager_checks [OF ex_outcome_plain [OF ex_copy(2)], of ex_engine None None None None]
    by (simp add: Let_def ex_subsample run_core_checks_eager SchemaErrorHandler_def
        ex_checks_a c)
qed

lemma ex_eager_coerce:
  "validate SeriesSchemaBackend ex_engine [ex_series] 0 ex_schema
       None None None None False False
     = (Inl (SchemaErrorRaised ex_coercion_error),
        \<lparr>heap = [ex_series, ex_coerced], error_handler = SchemaErrorHandler False,
         calls = [Preprocess, Coerce]\<rparr>)"
  by (rule validate_eager_coercion_error [OF ex_outcome])

lemma core_entries_explicit:
  "core_entries (core_checks eng) f s d =
     (if passed (check_name f s) then []
      else [(Some ''wrong_field_name'', core_check_error s d (check_name f s))])
     @ (if passed (check_nullable f s) then []
        else [(Some ''series_contains_nulls'', core_check_error s d (check_nullable f s))])
     @ (if passed (check_unique f s) then []
        else [(Some ''series_contains_duplicates'', core_check_error s d (check_unique f s))])
     @ (if passed (check_dtype eng f s) then []
        else [(Some ''wrong_dtype'', core_check_error s d (check_dtype eng f s))])"
  by (simp add: core_entries_def failed_results_def core_checks_def core_reason_codes)

section \<open>Lemmas on masks and on the declared checks\<close>

lemma select_mask_nth:
  "length m = length rs \<Longrightarrow>
   select_mask rs m = map (nth rs) (filter (nth m) [0..<length rs])"
proof (induction rs arbitrary: m rule: rev_induct)
  case Nil
  then show ?case by (simp add: select_mask_def)
next
  case (snoc r rs)
  then obtain b ms where m: "m = ms @ [b]" and l: "length ms = length rs"
    by (cases m rule: rev_cases) auto
  have ih: "select_mask rs ms = map (nth rs) (filter (nth ms) [0..<length rs])"
    using snoc.IH [OF l] .
  have f: "filter (nth (ms @ [b])) [0..<length rs] = filter (nth ms) [0..<length rs]"
    using l by (intro filter_cong) (auto simp add: nth_append)
  have g: "map (nth (rs @ [r])) (filter (nth ms) [0..<length rs])
           = map (nth rs) (filter (nth ms) [0..<length rs])"
    by (intro map_cong) (auto simp add: nth_append)
  have z: "select_mask (rs @ [r]) (ms @ [b]) = select_mask rs ms @ (if b then [r] else [])"
    using l by (simp add: select_mask_def)
  have e: "(ms @ [b]) ! length rs = b" "(rs @ [r]) ! length rs = r"
    using l by (simp_all add: nth_append)
  have "map (nth (rs @ [r])) (filter (nth (ms @ [b])) [0..<length (rs @ [r])])
        = map (nth (rs @ [r])) (filter (nth (ms @ [b])) [0..<length rs])
          @ (if b then [r] else [])"
    by (simp add: e)
  also have "\<dots> = map (nth rs) (filter (nth ms) [0..<length rs]) @ (if b then [r] else [])"
    unfolding f g ..
  finally show ?case
    unfolding m z ih ..
qed


lemma array_coerce_ref_valid:
  "ArraySchemaBackend_coerce_dtype eng h r sa = (Inr r', h') \<Longrightarrow> r < length h \<Longrightarrow>
   r' < length h'"
  by (auto simp add: ArraySchemaBackend_coerce_dtype_def
      split: option.splits prod.splits sum.splits if_splits)

lemma run_checks_loop_eager:
  "\<not> lazy (error_handler st) \<Longrightarrow> k < length cs \<Longrightarrow>
   (\<forall>j<k. \<exists>b. run_check eng obj s (cs ! j) (i + j) = Returned b) \<Longrightarrow>
   declared_entries eng obj s (i + k) [cs ! k] = [(rc, e)] \<Longrightarrow>
   run_checks_loop eng obj s i cs acc st =
     (Inl (SchemaErrorRaised e),
      st\<lparr>calls := calls st @ take (Suc k) (map DeclaredCheck [i..<i + length cs])\<rparr>)"
proof (induction cs arbitrary: i k acc st)
  case Nil
  then show ?case by simp
next
  case (Cons c cs)
  show ?case
  proof (cases k)
    case 0
    show ?thesis
      using Cons.prems(1) Cons.prems(4) unfolding declared_calls_Cons 0
      by (cases "run_check eng obj s c i")
         (auto simp add: Let_def collect_error_def split: option.splits)
  next
    case (Suc j)
    obtain b where b: "run_check eng obj s c i = Returned b"
      using Cons.prems(3) [rule_format, of 0] Suc by auto
    let ?st1 = "st\<lparr>calls := calls st @ [DeclaredCheck i]\<rparr>"
    have p: "\<forall>l<j. \<exists>b. run_check eng obj s (cs ! l) (Suc i + l) = Returned b"
    proof (intro allI impI)
      fix l assume "l < j"
      then have "Suc l < k" using Suc by simp
      from Cons.prems(3) [rule_format, OF this]
      show "\<exists>b. run_check eng obj s (cs ! l) (Suc i + l) = Returned b" by simp
    qed
    have d: "declared_entries eng obj s (Suc i + j) [cs ! j] = [(rc, e)]"
      using Cons.prems(4) Suc by simp
    have j: "j < length cs" using Cons.prems(2) Suc by simp
    have l: "\<not> lazy (error_handler ?st1)" using Cons.prems(1) by simp
    have "run_checks_loop eng obj s i (c # cs) acc st =
            run_checks_loop eng obj s (Suc i) cs (acc @ [b]) ?st1"
      using b by (simp add: Let_def)
    also have "\<dots> = (Inl (SchemaErrorRaised e),
        ?st1\<lparr>calls := calls ?st1 @ take (Suc j) (map DeclaredCheck [Suc i..<Suc i + length cs])\<rparr>)"
      by (rule Cons.IH [OF l j p d])
    finally show ?thesis
      unfolding declared_calls_Cons Suc by simp
  qed
qed

lemma take_declared: "k < n \<Longrightarrow> take (Suc k) (map DeclaredCheck [0..<n]) = map DeclaredCheck [0..<Suc k]"
  by (simp add: take_map del: upt_Suc)

section \<open>Lemmas on the two modes of the error handler\<close>

text \<open>Whatever the declared checks do, a lazy validation has run the four core checks
  and collected the coercion error and the errors of the failed core checks, in this
  order; what follows them holds no \<open>wrong_dtype\<close> entry.\<close>

lemma validate_lazy_core:
  assumes co: "coerce_outcome self eng h r schema inplace = (r2, h2, ce)"
  shows "prefix ([Preprocess] @ (if coerce schema then [Coerce] else [])
                 @ [Subsample, Subsample, CoreCheck ''check_name'',
                    CoreCheck ''check_nullable'', CoreCheck ''check_unique'',
                    CoreCheck ''check_dtype''])
           (calls (snd (validate self eng h r schema head tail sample rs True inplace)))"
    and "\<exists>es. collected_errors (error_handler
                 (snd (validate self eng h r schema head tail sample rs True inplace)))
               = coercion_entries ce
                 @ core_entries (core_checks eng)
                     (subsample eng (h2 ! r2) head tail sample rs) schema (h2 ! r2)
                 @ es
             \<and> filter (\<lambda>x. fst x = Some ''wrong_dtype'') es = []"
proof -
  let ?f = "subsample eng (h2 ! r2) head tail sample rs"
  let ?upto = "[Preprocess] @ (if coerce schema then [Coerce] else [])
                 @ [Subsample, Subsample, CoreCheck ''check_name'',
                    CoreCheck ''check_nullable'', CoreCheck ''check_unique'',
                    CoreCheck ''check_dtype'']"
  let ?st4 = "\<lparr>heap = h2,
        error_handler = \<lparr>lazy = True, collected_errors =
          coercion_entries ce @ core_entries (core_checks eng) ?f schema (h2 ! r2)\<rparr>,
        calls = ?upto\<rparr>"
  have s: "snd (validate self eng h r schema head tail sample rs True inplace)
             = snd (run_checks_loop eng ?f schema 0 (checks schema) [] ?st4)"
    unfolding validate_lazy_snd [OF co] run_checks_def ..
  from run_checks_loop_calls [of "checks schema" eng ?f schema 0 "[]" ?st4]
  obtain k where k: "calls (snd (run_checks_loop eng ?f schema 0 (checks schema) [] ?st4)) =
       calls ?st4 @ take k (map DeclaredCheck [0..<0 + length (checks schema)])"
    by blast
  show "prefix ?upto
           (calls (snd (validate self eng h r schema head tail sample rs True inplace)))"
    unfolding s k by (rule prefixI) simp
  from run_checks_loop_collected [of eng ?f schema 0 "checks schema" "[]" ?st4]
  obtain es where es: "collected_errors (error_handler
        (snd (run_checks_loop eng ?f schema 0 (checks schema) [] ?st4)))
           = collected_errors (error_handler ?st4) @ es
        \<and> filter (\<lambda>x. fst x = Some ''wrong_dtype'') es = []"
    by (rule exE)
  show "\<exists>es. collected_errors (error_handler
                 (snd (validate self eng h r schema head tail sample rs True inplace)))
               = coercion_entries ce @ core_entries (core_checks eng) ?f schema (h2 ! r2) @ es
             \<and> filter (\<lambda>x. fst x = Some ''wrong_dtype'') es = []"
    unfolding s using es by (intro exI [of _ es]) simp
qed

text \<open>The outcome of an eager validation whose coercion step raised nothing: the first
  core check that fails ends the call.\<close>

lemma validate_eager_core:
  assumes co: "coerce_outcome self eng h r schema inplace = (r2, h2, None)"
  shows "let v = validate self eng h r schema head tail sample rs False inplace;
             obj = h2 ! r2;
             f = subsample eng obj head tail sample rs;
             before = [Preprocess] @ (if coerce schema then [Coerce] else [])
                      @ [Subsample, Subsample];
             eh = \<lparr>lazy = False, collected_errors = []\<rparr>
         in (\<not> passed (check_name f schema) \<longrightarrow>
               v = (Inl (SchemaErrorRaised (core_check_error schema obj (check_name f schema))),
                    \<lparr>heap = h2, error_handler = eh,
                     calls = before @ [CoreCheck ''check_name'']\<rparr>))
          \<and> (passed (check_name f schema) \<and> \<not> passed (check_nullable f schema) \<longrightarrow>
               v = (Inl (SchemaErrorRaised
                           (core_check_error schema obj (check_nullable f schema))),
                    \<lparr>heap = h2, error_handler = eh,
                     calls = before @ [CoreCheck ''check_name'',
                                       CoreCheck ''check_nullable'']\<rparr>))
          \<and> (passed (check_name f schema) \<and> passed (check_nullable f schema)
              \<and> \<not> passed (check_unique f schema) \<longrightarrow>
               v = (Inl (SchemaErrorRaised
                           (core_check_error schema obj (check_unique f schema))),
                    \<lparr>heap = h2, error_handler = eh,
                     calls = before @ [CoreCheck ''check_name'', CoreCheck ''check_nullable'',
                                       CoreCheck ''check_unique'']\<rparr>))
          \<and> (passed (check_name f schema) \<and> passed (check_nullable f schema)
              \<and> passed (check_unique f schema) \<and> \<not> passed (check_dtype eng f schema) \<longrightarrow>
               v = (Inl (SchemaErrorRaised
                           (core_check_error schema obj (check_dtype eng f schema))),
                    \<lparr>heap = h2, error_handler = eh,
                     calls = before @ [CoreCheck ''check_name'', CoreCheck ''check_nullable'',
                                       CoreCheck ''check_unique'',
                                       CoreCheck ''check_dtype'']\<rparr>))"
  using validate_eager_checks [OF co, of head tail sample rs]
  by (simp add: Let_def run_core_checks_eager SchemaErrorHandler_def)



text \<open>The example engines keep or break the contract of \<^verbatim>\<open>run_check\<close>.\<close>

lemma ex_causes:
  "causes_known ex_engine obj ex_schema 0 (checks ex_schema)"
  "causes_known ex_engine obj ex_schema_plain 0 (checks ex_schema_plain)"
  "all_true (returned_results ex_engine obj ex_schema 0 (checks ex_schema))"
  "all_true (returned_results ex_engine obj ex_schema_plain 0 (checks ex_schema_plain))"
  by (simp_all add: ex_engine_def ex_schema_plain_def ex_schema_def unwrap_dispatch_def
      all_true_def)

lemma ex_nocause:
  "run_check ex_engine_nocause obj s ''c0'' i
     = RaisedException (PyException ''ValueError'' [''boom''] None)"
  "run_check ex_engine_nocause obj s ''c1'' i
     = RaisedException (PyException ''DispatchError'' [''no match''] None)"
  "run_check ex_engine_nocause obj s ''c2'' i = Returned True"
  "check_dtype ex_engine_nocause = check_dtype ex_engine"
  "subsample ex_engine_nocause = subsample ex_engine"
  by (simp_all add: ex_engine_nocause_def check_dtype_def subsample_def fun_eq_iff
      split: option.splits dtype_check_results.splits)

section \<open>Claims\<close>

text \<open>
  C6. \<^verbatim>\<open>check_unique\<close> passes iff uniqueness is not declared or no row is flagged as a
  duplicate under the schema's keep policy, which is the case iff the values are
  distinct. For the values 1, 1, 2, 1 on the default index the failure cases are the
  rows 1 and 3 when the first occurrence is kept, the rows 0 and 1 when the last one is
  kept, and the rows 0, 1 and 3 when none is kept. The outcome depends on the rows and
  on the schema's uniqueness settings only: not on the name, dtype, accessor or module
  of the object (so not on which of the two routes computes the mask).
\<close>

theorem check_unique_keep_policies:
  "(passed (check_unique obj s) \<longleftrightarrow>
      (\<not> unique s \<or>
       \<not> any_true (duplicated (convert_uniquesettings (report_duplicates s))
                     (map snd (rows obj)))))
   \<and> (passed (check_unique obj s) \<longleftrightarrow> (\<not> unique s \<or> distinct (map snd (rows obj))))
   \<and> (unique s \<and> rows obj = [(0, IntV 1), (1, IntV 1), (2, IntV 2), (3, IntV 1)] \<longrightarrow>
        failure_cases (check_unique obj s) =
          Some (case report_duplicates s of
                  ExcludeFirst \<Rightarrow> [(Some 1, IntV 1), (Some 3, IntV 1)]
                | ExcludeLast \<Rightarrow> [(Some 0, IntV 1), (Some 1, IntV 1)]
                | ReportAll \<Rightarrow> [(Some 0, IntV 1), (Some 1, IntV 1), (Some 3, IntV 1)]))
   \<and> (rows obj = rows obj' \<and> unique s = unique s'
        \<and> report_duplicates s = report_duplicates s' \<longrightarrow>
        passed (check_unique obj s) = passed (check_unique obj' s')
        \<and> failure_cases (check_unique obj s) = failure_cases (check_unique obj' s'))"
proof (intro conjI impI)
  show "passed (check_unique obj s) \<longleftrightarrow>
      (\<not> unique s \<or>
       \<not> any_true (duplicated (convert_uniquesettings (report_duplicates s))
                     (map snd (rows obj))))"
    by (simp add: check_unique_def Let_def to_frame_duplicated_def)
  show "passed (check_unique obj s) \<longleftrightarrow> (\<not> unique s \<or> distinct (map snd (rows obj)))"
    by (rule check_unique_passed)
next
  assume a: "unique s \<and> rows obj = [(0, IntV 1), (1, IntV 1), (2, IntV 2), (3, IntV 1)]"
  have m: "map snd (rows obj) = [IntV 1, IntV 1, IntV 2, IntV 1]" using a by simp
  have f: "duplicated KeepFirst [IntV 1, IntV 1, IntV 2, IntV 1] = [False, True, False, True]"
    by code_simp
  have l: "duplicated KeepLast [IntV 1, IntV 1, IntV 2, IntV 1] = [True, True, False, False]"
    by code_simp
  have n: "duplicated KeepFalse [IntV 1, IntV 1, IntV 2, IntV 1] = [True, True, False, True]"
    by code_simp
  show "failure_cases (check_unique obj s) =
          Some (case report_duplicates s of
                  ExcludeFirst \<Rightarrow> [(Some 1, IntV 1), (Some 3, IntV 1)]
                | ExcludeLast \<Rightarrow> [(Some 0, IntV 1), (Some 1, IntV 1)]
                | ReportAll \<Rightarrow> [(Some 0, IntV 1), (Some 1, IntV 1), (Some 3, IntV 1)])"
    using a
    by (cases "report_duplicates s")
       (simp_all add: check_unique_def Let_def to_frame_duplicated_def m f l n
          convert_uniquesettings_def any_true_def select_mask_def reshape_failure_cases_def)
next
  assume a: "rows obj = rows obj' \<and> unique s = unique s'
        \<and> report_duplicates s = report_duplicates s'"
  then show "passed (check_unique obj s) = passed (check_unique obj' s')"
    by (simp add: check_unique_def Let_def to_frame_duplicated_def)
  from a show "failure_cases (check_unique obj s) = failure_cases (check_unique obj' s')"
    by (simp add: check_unique_def Let_def to_frame_duplicated_def)
qed

theorem check_unique_keep_policies_witness:
  "\<not> passed (check_unique ex_series_1121 ex_schema)
   \<and> failure_cases (check_unique ex_series_1121 ex_schema)
       = Some [(Some 1, IntV 1), (Some 3, IntV 1)]
   \<and> failure_cases (check_unique ex_series_1121_spark ex_schema)
       = failure_cases (check_unique ex_series_1121 ex_schema)"
proof -
  have u: "unique ex_schema" "report_duplicates ex_schema = ExcludeFirst"
    by (simp_all add: ex_schema_def)
  have r: "rows ex_series_1121 = [(0, IntV 1), (1, IntV 1), (2, IntV 2), (3, IntV 1)]"
    "rows ex_series_1121 = rows ex_series_1121_spark"
    by (simp_all add: ex_series_1121_def ex_series_1121_spark_def)
  have d: "\<not> distinct (map snd (rows ex_series_1121))"
    by (simp add: r(1))
  note t = check_unique_keep_policies
      [of ex_series_1121 ex_schema ex_series_1121_spark ex_schema]
  from t d u have 1: "\<not> passed (check_unique ex_series_1121 ex_schema)"
    by blast
  from t u r(1) have 2: "failure_cases (check_unique ex_series_1121 ex_schema)
       = Some [(Some 1, IntV 1), (Some 3, IntV 1)]"
    by simp
  from t r(2) have 3: "failure_cases (check_unique ex_series_1121_spark ex_schema)
       = failure_cases (check_unique ex_series_1121 ex_schema)"
    by simp
  from 1 2 3 show ?thesis by blast
qed

text \<open>
  C10. With no dtype declared, \<^verbatim>\<open>coerce_dtype\<close> returns the object it was given and
  raises nothing, whether or not \<open>coerce\<close> is set, and the engine is not asked: the store
  is left as it was. Through \<^verbatim>\<open>SeriesSchemaBackend\<close> the same object comes back too,
  with its rows, name and dtype untouched.
\<close>

theorem coerce_dtype_no_dtype:
  "dtype s = None \<Longrightarrow>
   ArraySchemaBackend_coerce_dtype eng h check_obj (Some s) = (Inr check_obj, h)
   \<and> coerce_dtype ArraySchemaBackend eng h check_obj (Some s) = (Inr check_obj, h)
   \<and> fst (SeriesSchemaBackend_coerce_dtype eng h check_obj (Some s)) = Inr check_obj
   \<and> map rows (snd (SeriesSchemaBackend_coerce_dtype eng h check_obj (Some s))) = map rows h
   \<and> map s_name (snd (SeriesSchemaBackend_coerce_dtype eng h check_obj (Some s))) = map s_name h
   \<and> map s_dtype (snd (SeriesSchemaBackend_coerce_dtype eng h check_obj (Some s))) = map s_dtype h"
  by (simp add: ArraySchemaBackend_coerce_dtype_def coerce_dtype_def
      SeriesSchemaBackend_coerce_dtype_def Let_def add_schema_def map_update_same)

theorem coerce_dtype_no_dtype_witness:
  "dtype ex_schema_untyped = None \<and> coerce ex_schema_untyped
   \<and> ArraySchemaBackend_coerce_dtype ex_engine [ex_series] 0 (Some ex_schema_untyped)
       = (Inr 0, [ex_series])"
  using coerce_dtype_no_dtype [of ex_schema_untyped ex_engine "[ex_series]" 0]
  by (simp add: ex_schema_untyped_def ex_schema_def)

text \<open>
  C3. With \<open>lazy = False\<close> the first collected error ends the call. A coercion error is
  raised at once, before any subsampling or check. Otherwise the error raised is that of
  the first core check that fails in the order name, nullable, unique, dtype, whatever
  the later checks would have found; the calls stop at that check, so no declared check
  is run after a structural violation. When the four core checks pass, the first
  declared check that raises ends the call in the same way.
\<close>

theorem validate_eager_first_error:
  "let res = fst (validate self eng h check_obj schema head tail sample rs False inplace);
       st = snd (validate self eng h check_obj schema head tail sample rs False inplace);
       obj = checked_obj self eng h check_obj schema inplace;
       f = subsample eng obj head tail sample rs;
       before = [Preprocess] @ (if coerce schema then [Coerce] else []) @ [Subsample, Subsample]
   in (\<forall>exc. coercion_error self eng h check_obj schema inplace = Some exc \<longrightarrow>
         res = Inl (SchemaErrorRaised exc) \<and> calls st = [Preprocess, Coerce])
    \<and> (coercion_error self eng h check_obj schema inplace = None \<longrightarrow>
         (\<not> passed (check_name f schema) \<longrightarrow>
            res = Inl (SchemaErrorRaised (core_check_error schema obj (check_name f schema)))
            \<and> calls st = before @ [CoreCheck ''check_name''])
       \<and> (passed (check_name f schema) \<and> \<not> passed (check_nullable f schema) \<longrightarrow>
            res = Inl (SchemaErrorRaised (core_check_error schema obj (check_nullable f schema)))
            \<and> calls st = before @ [CoreCheck ''check_name'', CoreCheck ''check_nullable''])
       \<and> (passed (check_name f schema) \<and> passed (check_nullable f schema)
            \<and> \<not> passed (check_unique f schema) \<longrightarrow>
            res = Inl (SchemaErrorRaised (core_check_error schema obj (check_unique f schema)))
            \<and> calls st = before @ [CoreCheck ''check_name'', CoreCheck ''check_nullable'',
                                    CoreCheck ''check_unique''])
       \<and> (passed (check_name f schema) \<and> passed (check_nullable f schema)
            \<and> passed (check_unique f schema) \<and> \<not> passed (check_dtype eng f schema) \<longrightarrow>
            res = Inl (SchemaErrorRaised (core_check_error schema obj (check_dtype eng f schema)))
            \<and> calls st = before @ [CoreCheck ''check_name'', CoreCheck ''check_nullable'',
                                    CoreCheck ''check_unique'', CoreCheck ''check_dtype''])
       \<and> (passed (check_name f schema) \<and> passed (check_nullable f schema)
            \<and> passed (check_unique f schema) \<and> passed (check_dtype eng f schema)
            \<and> k < length (checks schema)
            \<and> (\<forall>j<k. \<exists>b. run_check eng f schema (checks schema ! j) j = Returned b)
            \<and> declared_entries eng f schema k [checks schema ! k] = [(rc, e)] \<longrightarrow>
            res = Inl (SchemaErrorRaised e)
            \<and> calls st = before @ [CoreCheck ''check_name'', CoreCheck ''check_nullable'',
                                    CoreCheck ''check_unique'', CoreCheck ''check_dtype'']
                          @ map DeclaredCheck [0..<Suc k]))"
proof -
  obtain r2 h2 ce where co: "coerce_outcome self eng h check_obj schema inplace = (r2, h2, ce)"
    by (cases "coerce_outcome self eng h check_obj schema inplace")
  show ?thesis
  proof (cases ce)
    case (Some exc)
    show ?thesis
      using validate_eager_coercion_error [OF co [unfolded Some]] co Some
      by (simp add: Let_def coercion_error_def)
  next
    case None
    let ?obj = "h2 ! r2"
    let ?f = "subsample eng ?obj head tail sample rs"
    let ?before = "[Preprocess] @ (if coerce schema then [Coerce] else [])
                   @ [Subsample, Subsample]"
    let ?core = "[CoreCheck ''check_name'', CoreCheck ''check_nullable'',
                  CoreCheck ''check_unique'', CoreCheck ''check_dtype'']"
    let ?st4 = "\<lparr>heap = h2, error_handler = SchemaErrorHandler False,
                 calls = ?before @ ?core\<rparr>"
    have d: "passed (check_name ?f schema) \<and> passed (check_nullable ?f schema)
            \<and> passed (check_unique ?f schema) \<and> passed (check_dtype eng ?f schema)
            \<and> k < length (checks schema)
            \<and> (\<forall>j<k. \<exists>b. run_check eng ?f schema (checks schema ! j) j = Returned b)
            \<and> declared_entries eng ?f schema k [checks schema ! k] = [(rc, e)] \<Longrightarrow>
          validate self eng h check_obj schema head tail sample rs False inplace
            = (Inl (SchemaErrorRaised e),
               ?st4\<lparr>calls := calls ?st4 @ map DeclaredCheck [0..<Suc k]\<rparr>)"
    proof -
      assume a: "passed (check_name ?f schema) \<and> passed (check_nullable ?f schema)
            \<and> passed (check_unique ?f schema) \<and> passed (check_dtype eng ?f schema)
            \<and> k < length (checks schema)
            \<and> (\<forall>j<k. \<exists>b. run_check eng ?f schema (checks schema ! j) j = Returned b)
            \<and> declared_entries eng ?f schema k [checks schema ! k] = [(rc, e)]"
      have l: "\<not> lazy (error_handler ?st4)" by (simp add: SchemaErrorHandler_def)
      have k: "k < length (checks schema)" using a by simp
      have p: "\<forall>j<k. \<exists>b. run_check eng ?f schema (checks schema ! j) (0 + j) = Returned b"
        using a by simp
      have q: "declared_entries eng ?f schema (0 + k) [checks schema ! k] = [(rc, e)]"
        using a by simp
      have rc: "run_checks eng ?f schema False ?st4 =
          (Inl (SchemaErrorRaised e),
           ?st4\<lparr>calls := calls ?st4 @ map DeclaredCheck [0..<Suc k]\<rparr>)"
        unfolding run_checks_def run_checks_loop_eager [OF l k p q]
        using take_declared [OF k] by simp
      show ?thesis
        unfolding validate_eager_checks [OF co [unfolded None]]
        using a rc by (simp add: Let_def run_core_checks_eager SchemaErrorHandler_def)
    qed
    show ?thesis
      using validate_eager_checks [OF co [unfolded None]] co None d
      by (simp add: Let_def coercion_error_def checked_obj_def run_core_checks_eager
          SchemaErrorHandler_def)
  qed
qed

theorem validate_eager_first_error_witness:
  "fst (validate SeriesSchemaBackend ex_engine [ex_series] 0 ex_schema_plain
          None None None None False False)
     = Inl (SchemaErrorRaised
              (core_check_error ex_schema_plain ex_series (check_name ex_series ex_schema_plain)))
   \<and> calls (snd (validate SeriesSchemaBackend ex_engine [ex_series] 0 ex_schema_plain
          None None None None False False))
     = [Preprocess, Subsample, Subsample, CoreCheck ''check_name'']
   \<and> \<not> passed (check_name ex_series ex_schema_plain)
   \<and> \<not> passed (check_nullable ex_series ex_schema_plain)
   \<and> \<not> passed (check_unique ex_series ex_schema_plain)
   \<and> \<not> passed (check_dtype ex_engine ex_series ex_schema_plain)"
proof -
  have c: "\<not> coerce ex_schema_plain"
    by (simp add: ex_schema_plain_def)
  have o: "coerce_outcome SeriesSchemaBackend ex_engine [ex_series] 0 ex_schema_plain False
             = (1, [ex_series, ex_series], None)"
    by (simp add: coerce_outcome_def preprocess_def c ex_copy)
  have e: "coercion_error SeriesSchemaBackend ex_engine [ex_series] 0 ex_schema_plain False = None"
    and k: "checked_obj SeriesSchemaBackend ex_engine [ex_series] 0 ex_schema_plain False
              = ex_series"
    by (simp_all add: coercion_error_def checked_obj_def o)
  have s: "subsample ex_engine ex_series None None None None = ex_series"
    by (simp add: subsample_def)
  have n: "\<not> passed (check_name ex_series ex_schema_plain)"
    by (simp add: check_name_passed ex_series_def ex_schema_plain_def ex_schema_def)
  have u: "\<not> passed (check_nullable ex_series ex_schema_plain)"
    by (simp add: check_nullable_passed ex_series_def ex_schema_plain_def ex_schema_def)
  have d: "\<not> passed (check_unique ex_series ex_schema_plain)"
    by (simp add: check_unique_passed ex_series_def ex_schema_plain_def ex_schema_def)
  have t: "\<not> passed (check_dtype ex_engine ex_series ex_schema_plain)"
    by (simp add: check_dtype_passed ex_series_def ex_schema_plain_def ex_schema_def
        ex_engine_def all_true_def is_int_def)
  show ?thesis
    using validate_eager_first_error [of SeriesSchemaBackend ex_engine "[ex_series]" 0
        ex_schema_plain None None None None False] c e k s n u d t
    by (simp add: Let_def)
qed

text \<open>
  C8. With \<open>inplace = False\<close> a validation writes to no object that existed before the
  call: the caller's store is an unchanged initial part of the final store, whatever
  the backend, the mode and the engine do (an engine may rewrite the object it is
  handed and then fail), so the object the caller passed is as it was. With
  \<open>inplace = True\<close> the engine is handed the caller's object itself, which ends as the
  engine leaves it.
\<close>

theorem validate_not_inplace_frame:
  "check_obj < length h \<Longrightarrow>
   take (length h)
     (heap (snd (validate self eng h check_obj schema head tail sample rs lazy_arg False))) = h
   \<and> heap (snd (validate self eng h check_obj schema head tail sample rs lazy_arg False))
       ! check_obj = h ! check_obj
   \<and> (coerce schema \<and> dtype schema = Some d \<longrightarrow>
        heap (snd (validate ArraySchemaBackend eng h check_obj schema head tail sample rs
                     lazy_arg True)) ! check_obj
          = snd (try_coerce eng d (h ! check_obj)))"
proof -
  assume r: "check_obj < length h"
  let ?st = "snd (validate self eng h check_obj schema head tail sample rs lazy_arg False)"
  have t: "take (length h) (heap ?st) = h"
    using validate_coerce_frame [of "length h" "length h"
        "\<lparr>heap = h @ [series_copy (h ! check_obj)], error_handler = SchemaErrorHandler lazy_arg,
          calls = [Preprocess]\<rparr>" self eng schema]
    by (simp add: validate_heap preprocess_def)
  have "heap ?st ! check_obj = take (length h) (heap ?st) ! check_obj"
    using r by simp
  then have n: "heap ?st ! check_obj = h ! check_obj"
    using t by simp
  have i: "coerce schema \<and> dtype schema = Some d \<longrightarrow>
        heap (snd (validate ArraySchemaBackend eng h check_obj schema head tail sample rs
                     lazy_arg True)) ! check_obj
          = snd (try_coerce eng d (h ! check_obj))"
    using r
    by (auto simp add: validate_heap preprocess_def validate_coerce_def coerce_dtype_def
        ArraySchemaBackend_coerce_dtype_def nth_append
        split: prod.splits sum.splits raised.splits)
  from t n i show ?thesis by blast
qed

theorem validate_not_inplace_frame_witness:
  "(0::nat) < length [ex_series]
   \<and> heap (snd (validate SeriesSchemaBackend ex_engine [ex_series] 0 ex_schema
                  None None None None True False)) ! 0 = ex_series
   \<and> heap (snd (validate ArraySchemaBackend ex_engine [ex_series] 0 ex_schema
                  None None None None True True)) ! 0 = ex_series\<lparr>s_dtype := ''int64''\<rparr>
   \<and> ex_series\<lparr>s_dtype := ''int64''\<rparr> \<noteq> ex_series"
proof -
  have c: "coerce ex_schema \<and> dtype ex_schema = Some ''int64''"
    by (simp add: ex_schema_def)
  have t: "snd (try_coerce ex_engine ''int64'' ex_series) = ex_series\<lparr>s_dtype := ''int64''\<rparr>"
    by (simp add: ex_engine_def ex_series_def is_int_def)
  have n: "ex_series\<lparr>s_dtype := ''int64''\<rparr> \<noteq> ex_series"
    by (simp add: ex_series_def)
  show ?thesis
    using validate_not_inplace_frame [of 0 "[ex_series]" SeriesSchemaBackend ex_engine
        ex_schema None None None None True "''int64''"] c t n
    by simp
qed




text \<open>
  C1, as it holds on the code. When \<open>coerce\<close> is set and \<^verbatim>\<open>coerce_dtype\<close> raises a
  \<^verbatim>\<open>SchemaError\<close>, the error is handed to the error handler under the reason code it
  carries. With \<open>lazy = True\<close> it is collected and validation goes on with the object as
  the failed coercion left it: the subsamples are taken and the four core checks run,
  the errors of those that fail being collected after the coercion error. When the
  declared checks, which run next, keep the contract of
  \<^verbatim>\<open>run_check\<close> on the validated subsample (one that returns gives a true value, and
  a \<^verbatim>\<open>DispatchError\<close> one raises has a cause), they all run and the call raises the
  aggregate whose first entry is the coercion error, followed by the errors of the
  failed core checks and of the declared checks. With \<open>lazy = False\<close> the coercion error
  is raised at once, and neither a subsample nor a check is made.
\<close>

theorem validate_coercion_failure:
  "coerce schema \<Longrightarrow>
   preprocess h check_obj inplace = (h1, check_obj1) \<Longrightarrow>
   coerce_dtype self eng h1 check_obj1 (Some schema) = (Inl (SchemaErrorRaised exc), h2) \<Longrightarrow>
   (let obj = h2 ! check_obj1;
        f = subsample eng obj head tail sample rs;
        upto_core = [Preprocess, Coerce, Subsample, Subsample, CoreCheck ''check_name'',
                     CoreCheck ''check_nullable'', CoreCheck ''check_unique'',
                     CoreCheck ''check_dtype''];
        entries = (e_reason_code exc, exc) # core_entries (core_checks eng) f schema obj;
        errs = entries @ declared_entries eng f schema 0 (checks schema);
        lazy_st = snd (validate self eng h check_obj schema head tail sample rs True inplace)
    in prefix upto_core (calls lazy_st)
     \<and> prefix entries (collected_errors (error_handler lazy_st))
     \<and> (causes_known eng f schema 0 (checks schema)
        \<and> all_true (returned_results eng f schema 0 (checks schema)) \<longrightarrow>
          validate self eng h check_obj schema head tail sample rs True inplace =
            (Inl (SchemaErrorsRaised schema errs obj),
             \<lparr>heap = h2, error_handler = \<lparr>lazy = True, collected_errors = errs\<rparr>,
              calls = upto_core @ map DeclaredCheck [0..<length (checks schema)]\<rparr>))
     \<and> validate self eng h check_obj schema head tail sample rs False inplace =
         (Inl (SchemaErrorRaised exc),
          \<lparr>heap = h2, error_handler = \<lparr>lazy = False, collected_errors = []\<rparr>,
           calls = [Preprocess, Coerce]\<rparr>))"
proof -
  assume c: "coerce schema"
    and p: "preprocess h check_obj inplace = (h1, check_obj1)"
    and cd: "coerce_dtype self eng h1 check_obj1 (Some schema) = (Inl (SchemaErrorRaised exc), h2)"
  let ?obj = "h2 ! check_obj1"
  let ?f = "subsample eng ?obj head tail sample rs"
  let ?upto = "[Preprocess, Coerce, Subsample, Subsample, CoreCheck ''check_name'',
                CoreCheck ''check_nullable'', CoreCheck ''check_unique'',
                CoreCheck ''check_dtype'']"
  let ?entries = "(e_reason_code exc, exc) # core_entries (core_checks eng) ?f schema ?obj"
  let ?errs = "?entries @ declared_entries eng ?f schema 0 (checks schema)"
  let ?lazy = "validate self eng h check_obj schema head tail sample rs True inplace"
  have o: "coerce_outcome self eng h check_obj schema inplace = (check_obj1, h2, Some exc)"
    by (simp add: coerce_outcome_def p c cd)
  have 1: "prefix ?upto (calls (snd ?lazy))"
    using validate_lazy_core(1) [OF o, of head tail sample rs] c by simp
  from validate_lazy_core(2) [OF o, of head tail sample rs]
  obtain es where es: "collected_errors (error_handler (snd ?lazy)) = ?entries @ es"
    by (auto simp add: coercion_entries_def)
  have 2: "prefix ?entries (collected_errors (error_handler (snd ?lazy)))"
    unfolding es by (rule prefixI) simp
  have 3: "causes_known eng ?f schema 0 (checks schema)
        \<and> all_true (returned_results eng ?f schema 0 (checks schema)) \<longrightarrow>
          ?lazy = (Inl (SchemaErrorsRaised schema ?errs ?obj),
             \<lparr>heap = h2, error_handler = \<lparr>lazy = True, collected_errors = ?errs\<rparr>,
              calls = ?upto @ map DeclaredCheck [0..<length (checks schema)]\<rparr>)"
  proof
    assume a: "causes_known eng ?f schema 0 (checks schema)
        \<and> all_true (returned_results eng ?f schema 0 (checks schema))"
    then have ck: "causes_known eng ?f schema 0 (checks schema)" by simp
    show "?lazy = (Inl (SchemaErrorsRaised schema ?errs ?obj),
             \<lparr>heap = h2, error_handler = \<lparr>lazy = True, collected_errors = ?errs\<rparr>,
              calls = ?upto @ map DeclaredCheck [0..<length (checks schema)]\<rparr>)"
      unfolding validate_lazy_all [OF o ck]
      using a by (simp add: Let_def coercion_entries_def all_calls_def c)
  qed
  have 4: "validate self eng h check_obj schema head tail sample rs False inplace =
         (Inl (SchemaErrorRaised exc),
          \<lparr>heap = h2, error_handler = \<lparr>lazy = False, collected_errors = []\<rparr>,
           calls = [Preprocess, Coerce]\<rparr>)"
    unfolding validate_eager_coercion_error [OF o] by (simp add: SchemaErrorHandler_def)
  show ?thesis
    unfolding Let_def using 1 2 3 4 by (intro conjI)
qed

theorem validate_coercion_failure_witness:
  "coerce ex_schema
   \<and> preprocess [ex_series] 0 False = ([ex_series, ex_series], 1)
   \<and> coerce_dtype SeriesSchemaBackend ex_engine [ex_series, ex_series] 1 (Some ex_schema)
       = (Inl (SchemaErrorRaised ex_coercion_error), [ex_series, ex_coerced])
   \<and> causes_known ex_engine ex_coerced ex_schema 0 (checks ex_schema)
   \<and> all_true (returned_results ex_engine ex_coerced ex_schema 0 (checks ex_schema))
   \<and> (\<exists>errs. fst (validate SeriesSchemaBackend ex_engine [ex_series] 0 ex_schema
                     None None None None True False)
        = Inl (SchemaErrorsRaised ex_schema ((None, ex_coercion_error) # errs) ex_coerced))
   \<and> calls (snd (validate SeriesSchemaBackend ex_engine [ex_series] 0 ex_schema
                   None None None None True False))
       = [Preprocess, Coerce, Subsample, Subsample, CoreCheck ''check_name'',
          CoreCheck ''check_nullable'', CoreCheck ''check_unique'', CoreCheck ''check_dtype'',
          DeclaredCheck 0, DeclaredCheck 1, DeclaredCheck 2]
   \<and> validate SeriesSchemaBackend ex_engine [ex_series] 0 ex_schema
        None None None None False False
       = (Inl (SchemaErrorRaised ex_coercion_error),
          \<lparr>heap = [ex_series, ex_coerced],
           error_handler = \<lparr>lazy = False, collected_errors = []\<rparr>,
           calls = [Preprocess, Coerce]\<rparr>)"
proof -
  have co: "coerce ex_schema" by (simp add: ex_schema_def)
  have p: "preprocess [ex_series] 0 False = ([ex_series, ex_series], 1)"
    by (simp add: preprocess_def ex_copy)
  have r: "e_reason_code ex_coercion_error = None"
    by (simp add: ex_coercion_error_def)
  have n: "map DeclaredCheck [0..<length (checks ex_schema)]
             = [DeclaredCheck 0, DeclaredCheck 1, DeclaredCheck 2]"
    by (simp add: ex_schema_def upt_conv_Cons)
  have g: "[ex_series, ex_coerced] ! 1 = ex_coerced" by simp
  note t = validate_coercion_failure [OF co p ex_coerce_fails, of None None None None,
      unfolded Let_def g ex_subsample r n]
  show ?thesis
    using t co p ex_coerce_fails ex_causes(1) [of ex_coerced] ex_causes(3) [of ex_coerced]
    by (simp del: One_nat_def)
qed

theorem validate_coercion_failure_counterexample:
  "coerce ex_schema
   \<and> coerce_dtype SeriesSchemaBackend ex_engine [ex_series, ex_series] 1 (Some ex_schema)
       = (Inl (SchemaErrorRaised ex_coercion_error), [ex_series, ex_coerced])
   \<and> validate SeriesSchemaBackend ex_engine [ex_series] 0 ex_schema
        None None None None False False
       = (Inl (SchemaErrorRaised ex_coercion_error),
          \<lparr>heap = [ex_series, ex_coerced],
           error_handler = \<lparr>lazy = False, collected_errors = []\<rparr>,
           calls = [Preprocess, Coerce]\<rparr>)
   \<and> e_reason_code ex_coercion_error = None"
  using ex_eager_coerce ex_coerce_fails
  by (simp add: SchemaErrorHandler_def ex_schema_def ex_coercion_error_def del: One_nat_def)

text \<open>
  C2, where the code departs from it. A lazy validation does raise while its declared
  checks execute when one of them raises a \<^verbatim>\<open>DispatchError\<close> that has no cause:
  \<^verbatim>\<open>run_checks\<close> replaces the error by its \<^verbatim>\<open>__cause__\<close>, which is \<^verbatim>\<open>None\<close>, and reading
  \<^verbatim>\<open>args\<close> of it raises an \<^verbatim>\<open>AttributeError\<close> that leaves \<^verbatim>\<open>validate\<close>. On the example
  below the second of three declared checks does so: the third check is never called,
  and although five errors have been collected by then (four failed core checks and the
  first declared check), no aggregate is raised.
\<close>

theorem validate_lazy_dispatch_error_without_cause:
  "checks ex_schema_plain = [''c0'', ''c1'', ''c2'']
   \<and> run_check ex_engine_nocause ex_series ex_schema_plain ''c1'' 1
       = RaisedException (PyException ''DispatchError'' [''no match''] None)
   \<and> validate SeriesSchemaBackend ex_engine_nocause [ex_series] 0 ex_schema_plain
        None None None None True False
       = (Inl AttributeError,
          \<lparr>heap = [ex_series, ex_series],
           error_handler = \<lparr>lazy = True, collected_errors =
             [(Some ''wrong_field_name'',
               core_check_error ex_schema_plain ex_series
                 (check_name ex_series ex_schema_plain)),
              (Some ''series_contains_nulls'',
               core_check_error ex_schema_plain ex_series
                 (check_nullable ex_series ex_schema_plain)),
              (Some ''series_contains_duplicates'',
               core_check_error ex_schema_plain ex_series
                 (check_unique ex_series ex_schema_plain)),
              (Some ''wrong_dtype'',
               core_check_error ex_schema_plain ex_series
                 (check_dtype ex_engine_nocause ex_series ex_schema_plain)),
              (Some ''check_error'',
               check_error ex_schema_plain ex_series ''c0'' 0
                 (PyException ''ValueError'' [''boom''] None))]\<rparr>,
           calls = [Preprocess, Subsample, Subsample, CoreCheck ''check_name'',
                    CoreCheck ''check_nullable'', CoreCheck ''check_unique'',
                    CoreCheck ''check_dtype'', DeclaredCheck 0, DeclaredCheck 1]\<rparr>)"
proof -
  have c: "checks ex_schema_plain = [''c0'', ''c1'', ''c2'']"
    and nc: "\<not> coerce ex_schema_plain"
    by (simp_all add: ex_schema_plain_def ex_schema_def)
  have e: "core_entries (core_checks ex_engine_nocause) ex_series ex_schema_plain ex_series =
      [(Some ''wrong_field_name'',
        core_check_error ex_schema_plain ex_series (check_name ex_series ex_schema_plain)),
       (Some ''series_contains_nulls'',
        core_check_error ex_schema_plain ex_series (check_nullable ex_series ex_schema_plain)),
       (Some ''series_contains_duplicates'',
        core_check_error ex_schema_plain ex_series (check_unique ex_series ex_schema_plain)),
       (Some ''wrong_dtype'',
        core_check_error ex_schema_plain ex_series
          (check_dtype ex_engine_nocause ex_series ex_schema_plain))]"
    by (simp add: core_entries_explicit ex_checks_fail ex_nocause(4))
  have r: "run_checks ex_engine_nocause ex_series ex_schema_plain True
        \<lparr>heap = hp, error_handler = \<lparr>lazy = True, collected_errors = es\<rparr>, calls = cl\<rparr>
      = (Inl AttributeError,
         \<lparr>heap = hp,
          error_handler = \<lparr>lazy = True, collected_errors = es @
            [(Some ''check_error'',
              check_error ex_schema_plain ex_series ''c0'' 0
                (PyException ''ValueError'' [''boom''] None))]\<rparr>,
          calls = cl @ [DeclaredCheck 0, DeclaredCheck 1]\<rparr>)" for hp es cl
    by (simp add: run_checks_def c ex_nocause Let_def unwrap_dispatch_def collect_error_def)
  have v: "validate SeriesSchemaBackend ex_engine_nocause [ex_series] 0 ex_schema_plain
        None None None None True False
      = (Inl AttributeError,
          \<lparr>heap = [ex_series, ex_series],
           error_handler = \<lparr>lazy = True, collected_errors =
             core_entries (core_checks ex_engine_nocause) ex_series ex_schema_plain ex_series
             @ [(Some ''check_error'',
                 check_error ex_schema_plain ex_series ''c0'' 0
                   (PyException ''ValueError'' [''boom''] None))]\<rparr>,
           calls = [Preprocess, Subsample, Subsample, CoreCheck ''check_name'',
                    CoreCheck ''check_nullable'', CoreCheck ''check_unique'',
                    CoreCheck ''check_dtype'', DeclaredCheck 0, DeclaredCheck 1]\<rparr>)"
    unfolding validate_lazy_checks [OF ex_outcome_plain [OF ex_copy(1)]]
    by (simp add: Let_def ex_subsample r nc coercion_entries_def del: One_nat_def)
  show ?thesis
    unfolding v e using c by (simp add: ex_nocause)
qed

text \<open>
  C5, as it holds on the code. \<^verbatim>\<open>check_dtype\<close> passes iff the schema declares no dtype
  or the column matches it (the boolean is true, or every element of the mask is). Its
  reason code is always \<open>wrong_dtype\<close>. When the compatibility check returns the boolean
  false, the failure cases are the one synthetic case holding the actual dtype, with no
  row index; when it returns a mask with one element per row, they are the rows whose
  element is false, one case per row with its index. The error built from a failed
  result carries these failure cases and the reason code. For a schema that does not
  coerce and whose dtype check fails on the validated subsample, a lazy validation
  collects exactly one \<open>wrong_dtype\<close> error, the one built from that result, whatever
  the declared checks do. An eager validation raises that error when the name, nullable
  and unique checks pass; otherwise it raises the error of the first of these three
  that fails, and \<^verbatim>\<open>check_dtype\<close> is not called.
\<close>

theorem check_dtype_wrong_dtype:
  "(passed (check_dtype eng f s) \<longleftrightarrow>
      (dtype s = None \<or>
       (\<exists>d'. dtype s = Some d' \<and>
          (case dtype_check eng d' (engine_dtype eng (s_dtype f)) f of
             BoolResult b \<Rightarrow> b
           | MaskResult m' \<Rightarrow> all_true m'))))
   \<and> reason_code (check_dtype eng f s) = ''wrong_dtype''
   \<and> (dtype s = Some d
        \<and> dtype_check eng d (engine_dtype eng (s_dtype f)) f = BoolResult False \<longrightarrow>
        failure_cases (check_dtype eng f s) = Some [(None, StrV (s_dtype f))])
   \<and> (dtype s = Some d
        \<and> dtype_check eng d (engine_dtype eng (s_dtype f)) f = MaskResult m
        \<and> length m = length (rows f) \<longrightarrow>
        failure_cases (check_dtype eng f s) =
          Some (map (\<lambda>k. (Some (fst (rows f ! k)), snd (rows f ! k)))
                  (filter (\<lambda>k. \<not> m ! k) [0..<length (rows f)])))
   \<and> (let obj = checked_obj self eng h check_obj schema inplace;
           g = subsample eng obj head tail sample rs;
           dtype_error = core_check_error schema obj (check_dtype eng g schema);
           lazy_st = snd (validate self eng h check_obj schema head tail sample rs True inplace);
           eager = validate self eng h check_obj schema head tail sample rs False inplace
       in e_reason_code dtype_error = Some ''wrong_dtype''
        \<and> e_failure_cases dtype_error = failure_cases (check_dtype eng g schema)
        \<and> (\<not> coerce schema \<and> \<not> passed (check_dtype eng g schema) \<longrightarrow>
             filter (\<lambda>x. fst x = Some ''wrong_dtype'')
               (collected_errors (error_handler lazy_st))
             = [(Some ''wrong_dtype'', dtype_error)])
        \<and> (\<not> coerce schema \<and> passed (check_name g schema)
            \<and> passed (check_nullable g schema) \<and> passed (check_unique g schema)
            \<and> \<not> passed (check_dtype eng g schema) \<longrightarrow>
             fst eager = Inl (SchemaErrorRaised dtype_error))
        \<and> (\<not> coerce schema \<and> \<not> passed (check_name g schema) \<longrightarrow>
             fst eager = Inl (SchemaErrorRaised
                                (core_check_error schema obj (check_name g schema)))
             \<and> CoreCheck ''check_dtype'' \<notin> set (calls (snd eager)))
        \<and> (\<not> coerce schema \<and> passed (check_name g schema)
            \<and> \<not> passed (check_nullable g schema) \<longrightarrow>
             fst eager = Inl (SchemaErrorRaised
                                (core_check_error schema obj (check_nullable g schema)))
             \<and> CoreCheck ''check_dtype'' \<notin> set (calls (snd eager)))
        \<and> (\<not> coerce schema \<and> passed (check_name g schema)
            \<and> passed (check_nullable g schema) \<and> \<not> passed (check_unique g schema) \<longrightarrow>
             fst eager = Inl (SchemaErrorRaised
                                (core_check_error schema obj (check_unique g schema)))
             \<and> CoreCheck ''check_dtype'' \<notin> set (calls (snd eager))))"
proof -
  have 1: "passed (check_dtype eng f s) \<longleftrightarrow>
      (dtype s = None \<or>
       (\<exists>d'. dtype s = Some d' \<and>
          (case dtype_check eng d' (engine_dtype eng (s_dtype f)) f of
             BoolResult b \<Rightarrow> b
           | MaskResult m' \<Rightarrow> all_true m')))"
    by (cases "dtype s") (simp_all add: check_dtype_passed)
  have 2: "reason_code (check_dtype eng f s) = ''wrong_dtype''"
    by (rule core_reason_codes)
  have 3: "dtype s = Some d
        \<and> dtype_check eng d (engine_dtype eng (s_dtype f)) f = BoolResult False \<longrightarrow>
        failure_cases (check_dtype eng f s) = Some [(None, StrV (s_dtype f))]"
    by (simp add: check_dtype_def scalar_failure_case_def)
  have 4: "dtype s = Some d
        \<and> dtype_check eng d (engine_dtype eng (s_dtype f)) f = MaskResult m
        \<and> length m = length (rows f) \<longrightarrow>
        failure_cases (check_dtype eng f s) =
          Some (map (\<lambda>k. (Some (fst (rows f ! k)), snd (rows f ! k)))
                  (filter (\<lambda>k. \<not> m ! k) [0..<length (rows f)]))"
  proof
    assume a: "dtype s = Some d
        \<and> dtype_check eng d (engine_dtype eng (s_dtype f)) f = MaskResult m
        \<and> length m = length (rows f)"
    then have l: "length (map Not m) = length (rows f)" by simp
    have fl: "filter (nth (map Not m)) [0..<length (rows f)]
              = filter (\<lambda>k. \<not> m ! k) [0..<length (rows f)]"
      using a by (intro filter_cong) auto
    have "select_mask (rows f) (map Not m)
          = map (nth (rows f)) (filter (\<lambda>k. \<not> m ! k) [0..<length (rows f)])"
      unfolding select_mask_nth [OF l] fl ..
    then show "failure_cases (check_dtype eng f s) =
          Some (map (\<lambda>k. (Some (fst (rows f ! k)), snd (rows f ! k)))
                  (filter (\<lambda>k. \<not> m ! k) [0..<length (rows f)]))"
      using a by (simp add: check_dtype_def Let_def reshape_failure_cases_def
          case_prod_unfold comp_def)
  qed
  obtain r2 h2 ce where o: "coerce_outcome self eng h check_obj schema inplace = (r2, h2, ce)"
    by (cases "coerce_outcome self eng h check_obj schema inplace")
  let ?obj = "h2 ! r2"
  let ?g = "subsample eng ?obj head tail sample rs"
  let ?err = "core_check_error schema ?obj (check_dtype eng ?g schema)"
  let ?lazy = "validate self eng h check_obj schema head tail sample rs True inplace"
  let ?eager = "validate self eng h check_obj schema head tail sample rs False inplace"
  have k: "checked_obj self eng h check_obj schema inplace = ?obj"
    by (simp add: checked_obj_def o)
  have nc: "\<not> coerce schema \<Longrightarrow> ce = None"
    using o by (simp add: coerce_outcome_def split: prod.splits)
  have 5: "e_reason_code ?err = Some ''wrong_dtype''"
    and 6: "e_failure_cases ?err = failure_cases (check_dtype eng ?g schema)"
    by (simp_all add: core_check_error_def core_reason_codes)
  have 7: "\<not> coerce schema \<and> \<not> passed (check_dtype eng ?g schema) \<longrightarrow>
             filter (\<lambda>x. fst x = Some ''wrong_dtype'')
               (collected_errors (error_handler (snd ?lazy)))
             = [(Some ''wrong_dtype'', ?err)]"
  proof
    assume a: "\<not> coerce schema \<and> \<not> passed (check_dtype eng ?g schema)"
    then have e: "ce = None" using nc by simp
    from validate_lazy_core(2) [OF o, of head tail sample rs]
    obtain es where es: "collected_errors (error_handler (snd ?lazy))
               = coercion_entries ce @ core_entries (core_checks eng) ?g schema ?obj @ es"
      and fe: "filter (\<lambda>x. fst x = Some ''wrong_dtype'') es = []"
      by auto
    show "filter (\<lambda>x. fst x = Some ''wrong_dtype'')
               (collected_errors (error_handler (snd ?lazy)))
             = [(Some ''wrong_dtype'', ?err)]"
      unfolding es using a fe
      by (simp add: e coercion_entries_def core_entries_explicit)
  qed
  have 8: "(\<not> coerce schema \<and> passed (check_name ?g schema)
            \<and> passed (check_nullable ?g schema) \<and> passed (check_unique ?g schema)
            \<and> \<not> passed (check_dtype eng ?g schema) \<longrightarrow>
             fst ?eager = Inl (SchemaErrorRaised ?err))
        \<and> (\<not> coerce schema \<and> \<not> passed (check_name ?g schema) \<longrightarrow>
             fst ?eager = Inl (SchemaErrorRaised
                                (core_check_error schema ?obj (check_name ?g schema)))
             \<and> CoreCheck ''check_dtype'' \<notin> set (calls (snd ?eager)))
        \<and> (\<not> coerce schema \<and> passed (check_name ?g schema)
            \<and> \<not> passed (check_nullable ?g schema) \<longrightarrow>
             fst ?eager = Inl (SchemaErrorRaised
                                (core_check_error schema ?obj (check_nullable ?g schema)))
             \<and> CoreCheck ''check_dtype'' \<notin> set (calls (snd ?eager)))
        \<and> (\<not> coerce schema \<and> passed (check_name ?g schema)
            \<and> passed (check_nullable ?g schema) \<and> \<not> passed (check_unique ?g schema) \<longrightarrow>
             fst ?eager = Inl (SchemaErrorRaised
                                (core_check_error schema ?obj (check_unique ?g schema)))
             \<and> CoreCheck ''check_dtype'' \<notin> set (calls (snd ?eager)))"
  proof (cases "coerce schema")
    case True
    then show ?thesis by simp
  next
    case False
    then have o': "coerce_outcome self eng h check_obj schema inplace = (r2, h2, None)"
      using o nc by simp
    show ?thesis
      using validate_eager_core [OF o', of head tail sample rs] False
      by (auto simp add: Let_def)
  qed
  show ?thesis
    unfolding Let_def k using 1 2 3 4 5 6 7 8 by (intro conjI) blast+
qed

theorem check_dtype_wrong_dtype_witness:
  "dtype ex_schema_plain = Some ''int64'' \<and> \<not> coerce ex_schema_plain
   \<and> dtype_check ex_engine ''int64'' (engine_dtype ex_engine (s_dtype ex_series)) ex_series
       = MaskResult [True, False, True, False]
   \<and> length [True, False, True, False] = length (rows ex_series)
   \<and> \<not> passed (check_dtype ex_engine ex_series ex_schema_plain)
   \<and> failure_cases (check_dtype ex_engine ex_series ex_schema_plain)
       = Some [(Some 1, NA), (Some 3, StrV ''x'')]
   \<and> filter (\<lambda>x. fst x = Some ''wrong_dtype'')
        (collected_errors (error_handler (snd
           (validate SeriesSchemaBackend ex_engine [ex_series] 0 ex_schema_plain
              None None None None True False))))
       = [(Some ''wrong_dtype'',
           core_check_error ex_schema_plain ex_series
             (check_dtype ex_engine ex_series ex_schema_plain))]
   \<and> \<not> passed (check_name ex_series ex_schema_plain)
   \<and> fst (validate SeriesSchemaBackend ex_engine [ex_series] 0 ex_schema_plain
             None None None None False False)
       = Inl (SchemaErrorRaised
                (core_check_error ex_schema_plain ex_series
                   (check_name ex_series ex_schema_plain)))
   \<and> CoreCheck ''check_dtype'' \<notin> set (calls (snd
        (validate SeriesSchemaBackend ex_engine [ex_series] 0 ex_schema_plain
           None None None None False False)))
   \<and> dtype_check ex_engine_bool ''int64'' (engine_dtype ex_engine_bool (s_dtype ex_series))
         ex_series
       = BoolResult False
   \<and> failure_cases (check_dtype ex_engine_bool ex_series ex_schema_plain)
       = Some [(None, StrV ''object'')]"
proof -
  have b: "dtype_check ex_engine_bool ''int64'' (engine_dtype ex_engine_bool (s_dtype ex_series))
         ex_series
       = BoolResult False"
    and sd: "s_dtype ex_series = ''object''"
    by (simp_all add: ex_engine_bool_def ex_engine_def ex_series_def)
  have d: "dtype ex_schema_plain = Some ''int64''" and c: "\<not> coerce ex_schema_plain"
    by (simp_all add: ex_schema_plain_def ex_schema_def)
  have m: "dtype_check ex_engine ''int64'' (engine_dtype ex_engine (s_dtype ex_series)) ex_series
       = MaskResult [True, False, True, False]"
    by (simp add: ex_engine_def ex_series_def is_int_def)
  have l: "length [True, False, True, False] = length (rows ex_series)"
    by (simp add: ex_series_def)
  have v: "map (\<lambda>k. (Some (fst (rows ex_series ! k)), snd (rows ex_series ! k)))
             (filter (\<lambda>k. \<not> [True, False, True, False] ! k) [0..<length (rows ex_series)])
           = [(Some 1, NA), (Some 3, StrV ''x'')]"
    by code_simp
  have k: "checked_obj SeriesSchemaBackend ex_engine [ex_series] 0 ex_schema_plain False
             = ex_series"
    by (simp add: checked_obj_def ex_outcome_plain ex_copy)
  note t = check_dtype_wrong_dtype [of ex_engine ex_series ex_schema_plain "''int64''"
      "[True, False, True, False]" SeriesSchemaBackend "[ex_series]" 0 ex_schema_plain False
      None None None None, unfolded Let_def k ex_subsample]
  from t d m l have fc: "failure_cases (check_dtype ex_engine ex_series ex_schema_plain) =
      Some (map (\<lambda>k. (Some (fst (rows ex_series ! k)), snd (rows ex_series ! k)))
             (filter (\<lambda>k. \<not> [True, False, True, False] ! k) [0..<length (rows ex_series)]))"
    by blast
  from t c ex_checks_fail(4)
  have fl: "filter (\<lambda>x. fst x = Some ''wrong_dtype'')
        (collected_errors (error_handler (snd
           (validate SeriesSchemaBackend ex_engine [ex_series] 0 ex_schema_plain
              None None None None True False))))
       = [(Some ''wrong_dtype'',
           core_check_error ex_schema_plain ex_series
             (check_dtype ex_engine ex_series ex_schema_plain))]"
    by blast
  from t c ex_checks_fail(1)
  have eg: "fst (validate SeriesSchemaBackend ex_engine [ex_series] 0 ex_schema_plain
             None None None None False False)
       = Inl (SchemaErrorRaised
                (core_check_error ex_schema_plain ex_series
                   (check_name ex_series ex_schema_plain)))
   \<and> CoreCheck ''check_dtype'' \<notin> set (calls (snd
        (validate SeriesSchemaBackend ex_engine [ex_series] 0 ex_schema_plain
           None None None None False False)))"
    by blast
  from check_dtype_wrong_dtype [of ex_engine_bool ex_series ex_schema_plain "''int64''"] d b
  have fb: "failure_cases (check_dtype ex_engine_bool ex_series ex_schema_plain)
       = Some [(None, StrV (s_dtype ex_series))]"
    by blast
  show ?thesis
    using d c m l ex_checks_fail(1) ex_checks_fail(4) fc [unfolded v] fl eg b fb [unfolded sd]
    by blast
qed

theorem check_dtype_wrong_dtype_counterexample:
  "\<not> coerce ex_schema_plain
   \<and> \<not> passed (check_dtype ex_engine ex_series_a ex_schema_plain)
   \<and> fst (validate SeriesSchemaBackend ex_engine [ex_series_a] 0 ex_schema_plain
             None None None None False False)
       = Inl (SchemaErrorRaised
                (core_check_error ex_schema_plain ex_series_a
                   (check_nullable ex_series_a ex_schema_plain)))
   \<and> e_reason_code (core_check_error ex_schema_plain ex_series_a
                       (check_nullable ex_series_a ex_schema_plain))
       = Some ''series_contains_nulls''
   \<and> CoreCheck ''check_dtype'' \<notin> set (calls (snd
        (validate SeriesSchemaBackend ex_engine [ex_series_a] 0 ex_schema_plain
           None None None None False False)))
   \<and> \<not> passed (check_dtype ex_engine_bool ex_series_a ex_schema_plain)
   \<and> failure_cases (check_dtype ex_engine_bool ex_series_a ex_schema_plain)
       = Some [(None, StrV ''object'')]"
proof -
  have c: "\<not> coerce ex_schema_plain" by (simp add: ex_schema_plain_def)
  have b: "\<not> passed (check_dtype ex_engine_bool ex_series_a ex_schema_plain)"
    "failure_cases (check_dtype ex_engine_bool ex_series_a ex_schema_plain)
       = Some [(None, StrV ''object'')]"
    by (simp_all add: check_dtype_def ex_engine_bool_def ex_engine_def ex_series_a_def
        ex_series_def ex_schema_plain_def ex_schema_def scalar_failure_case_def)
  have r: "e_reason_code (core_check_error ex_schema_plain ex_series_a
                       (check_nullable ex_series_a ex_schema_plain))
       = Some ''series_contains_nulls''"
    by (simp add: core_check_error_def core_reason_codes)
  show ?thesis
    using c r ex_checks_a(3) b by (simp add: ex_eager_a)
qed




text \<open>
  C9, as it holds on the code. \<^verbatim>\<open>SeriesSchemaBackend.coerce_dtype\<close> attaches the schema it is called
  with: whenever it returns an object that has the accessor, that object is associated
  with the schema of the call, whatever the input was associated with before (an
  association with the same schema persists, one with another schema is replaced).
  \<^verbatim>\<open>ArraySchemaBackend.coerce_dtype\<close> attaches nothing: the association is kept when it
  returns its input (no dtype, or \<open>coerce\<close> off), and otherwise the result is the object
  the type engine built.
\<close>

theorem series_coerce_dtype_attaches_schema:
  "check_obj < length h \<Longrightarrow>
   (\<forall>check_obj' h'.
      SeriesSchemaBackend_coerce_dtype eng h check_obj (Some schema) = (Inr check_obj', h')
      \<and> hasattr_pandera (h' ! check_obj') \<longrightarrow>
      pandera (h' ! check_obj') = Some (Some schema))
   \<and> (dtype schema = None \<or> \<not> coerce schema \<longrightarrow>
        ArraySchemaBackend_coerce_dtype eng h check_obj (Some schema) = (Inr check_obj, h))
   \<and> (\<forall>d coerced left.
        dtype schema = Some d \<and> coerce schema
        \<and> try_coerce eng d (h ! check_obj) = (Inr coerced, left) \<longrightarrow>
        (\<exists>h'. ArraySchemaBackend_coerce_dtype eng h check_obj (Some schema)
                 = (Inr (length h), h')
              \<and> h' ! length h = coerced))"
proof -
  assume v: "check_obj < length h"
  have 1: "\<forall>check_obj' h'.
      SeriesSchemaBackend_coerce_dtype eng h check_obj (Some schema) = (Inr check_obj', h')
      \<and> hasattr_pandera (h' ! check_obj') \<longrightarrow>
      pandera (h' ! check_obj') = Some (Some schema)"
  proof (intro allI impI)
    fix r' h'
    assume a: "SeriesSchemaBackend_coerce_dtype eng h check_obj (Some schema) = (Inr r', h')
      \<and> hasattr_pandera (h' ! r')"
    let ?h1 = "if hasattr_pandera (h ! check_obj)
               then h[check_obj := add_schema (h ! check_obj) (Some schema)] else h"
    have l1: "check_obj < length ?h1" using v by simp
    obtain res h2 where b: "ArraySchemaBackend_coerce_dtype eng ?h1 check_obj (Some schema)
        = (res, h2)"
      by (cases "ArraySchemaBackend_coerce_dtype eng ?h1 check_obj (Some schema)")
    have res: "res = Inr r'"
      and h': "h' = (if hasattr_pandera (h2 ! r')
                     then h2[r' := add_schema (h2 ! r') (Some schema)] else h2)"
      using a b by (auto simp add: SeriesSchemaBackend_coerce_dtype_def Let_def split: sum.splits)
    have lr: "r' < length h2"
      using array_coerce_ref_valid [OF b [unfolded res] l1] .
    show "pandera (h' ! r') = Some (Some schema)"
    proof (cases "hasattr_pandera (h2 ! r')")
      case True
      then show ?thesis using h' lr by (simp add: add_schema_def)
    next
      case False
      then have "h' = h2" using h' by simp
      then show ?thesis using a False by simp
    qed
  qed
  have 2: "dtype schema = None \<or> \<not> coerce schema \<longrightarrow>
        ArraySchemaBackend_coerce_dtype eng h check_obj (Some schema) = (Inr check_obj, h)"
    by (auto simp add: ArraySchemaBackend_coerce_dtype_def split: option.splits)
  have 3: "\<forall>d coerced left.
        dtype schema = Some d \<and> coerce schema
        \<and> try_coerce eng d (h ! check_obj) = (Inr coerced, left) \<longrightarrow>
        (\<exists>h'. ArraySchemaBackend_coerce_dtype eng h check_obj (Some schema)
                 = (Inr (length h), h')
              \<and> h' ! length h = coerced)"
    by (auto simp add: ArraySchemaBackend_coerce_dtype_def nth_append)
  from 1 2 3 show ?thesis by blast
qed

theorem series_coerce_dtype_attaches_schema_witness:
  "(0::nat) < length [ex_series_ints]
   \<and> pandera ex_series_ints = Some (Some ex_schema_other)
   \<and> (\<exists>h'. SeriesSchemaBackend_coerce_dtype ex_engine [ex_series_ints] 0 (Some ex_schema)
              = (Inr 1, h')
           \<and> pandera (h' ! 1) = Some (Some ex_schema))"
proof -
  have p: "pandera ex_series_ints = Some (Some ex_schema_other)"
    by (simp add: ex_series_ints_def)
  obtain res h' where c:
    "SeriesSchemaBackend_coerce_dtype ex_engine [ex_series_ints] 0 (Some ex_schema) = (res, h')"
    by (cases "SeriesSchemaBackend_coerce_dtype ex_engine [ex_series_ints] 0 (Some ex_schema)")
  have r: "res = Inr 1" and a: "hasattr_pandera (h' ! 1)"
    using c
    by (auto simp add: SeriesSchemaBackend_coerce_dtype_def ArraySchemaBackend_coerce_dtype_def
        Let_def hasattr_pandera_def add_schema_def ex_engine_def ex_series_ints_def
        ex_schema_def is_int_def)
  have "pandera (h' ! 1) = Some (Some ex_schema)"
    using series_coerce_dtype_attaches_schema [of 0 "[ex_series_ints]" ex_engine ex_schema]
      c r a by simp
  then show ?thesis using p c r by simp
qed

theorem series_coerce_dtype_attaches_schema_counterexample:
  "pandera ex_series_ints = Some (Some ex_schema_other)
   \<and> (\<exists>h'. ArraySchemaBackend_coerce_dtype ex_engine [ex_series_ints] 0 (Some ex_schema)
              = (Inr 1, h')
           \<and> pandera (h' ! 1) = Some None)
   \<and> (\<exists>h'. SeriesSchemaBackend_coerce_dtype ex_engine [ex_series_ints] 0 (Some ex_schema)
              = (Inr 1, h')
           \<and> pandera (h' ! 1) = Some (Some ex_schema)
           \<and> Some (Some ex_schema) \<noteq> pandera ex_series_ints)"
proof -
  have p: "pandera ex_series_ints = Some (Some ex_schema_other)"
    by (simp add: ex_series_ints_def)
  have n: "ex_schema \<noteq> ex_schema_other"
    by (simp add: ex_schema_other_def ex_schema_def)
  have f: "dtype ex_schema = Some ''int64''" "coerce ex_schema"
    by (simp_all add: ex_schema_def)
  have a: "\<exists>h'. ArraySchemaBackend_coerce_dtype ex_engine [ex_series_ints] 0 (Some ex_schema)
              = (Inr 1, h')
           \<and> pandera (h' ! 1) = Some None"
    using f
    by (simp add: ArraySchemaBackend_coerce_dtype_def ex_engine_def ex_series_ints_def
        is_int_def)
  have s: "\<exists>h'. SeriesSchemaBackend_coerce_dtype ex_engine [ex_series_ints] 0 (Some ex_schema)
              = (Inr 1, h')
           \<and> pandera (h' ! 1) = Some (Some ex_schema)"
    using f
    by (simp add: SeriesSchemaBackend_coerce_dtype_def ArraySchemaBackend_coerce_dtype_def
        Let_def hasattr_pandera_def add_schema_def ex_engine_def ex_series_ints_def
        is_int_def)
  from p n a s show ?thesis by auto
qed

end
